theory Spec2Isabelle
  imports
    Main
    "HOL-Library.Sublist"
    "HOL-Library.List_Lexorder"
    "HOL-Library.Char_ord"
    "HOL-Library.AList"
    "HOL-Library.Multiset"
    "HOL-Library.Word"
begin

section \<open>The F5 router of cf-bigip-ctlr: data model\<close>

text \<open>
  The development embeds \<^verbatim>\<open>f5router/f5router.go\<close>. The type declarations of the package
  (\<^verbatim>\<open>poolData\<close>, \<^verbatim>\<open>rule\<close>, \<^verbatim>\<open>condition\<close>, \<^verbatim>\<open>routeConfig\<close>, ...) live in a file of the
  package that is not part of the sources at hand; the records below carry exactly the
  fields that \<^verbatim>\<open>f5router.go\<close> reads or writes, with Go's zero value for a field that a
  composite literal leaves out.

  Go's \<^verbatim>\<open>string\<close> is a byte string and is modelled by \<^typ>\<open>string\<close>; \<^verbatim>\<open><\<close> on Go
  strings is the bytewise lexicographic order, which is the order of
  \<open>HOL-Library.List_Lexorder\<close> over \<open>HOL-Library.Char_ord\<close>.

  A run-time panic is a value of type \<open>panic\<close>; a function that can panic returns
  \<open>panic + 'a\<close>. An \<^verbatim>\<open>error\<close> returned by a Go function is a value of type \<open>error\<close>.
\<close>

datatype panic = index_out_of_range | slice_bounds_out_of_range

type_synonym error = string

datatype operation = add | remove | unsupported_operation

datatype vsType = HTTP | HTTPS | unknown_vsType

definition HTTPRouterName :: string where
  "HTTPRouterName = ''routing-vip-http''"

definition HTTPSRouterName :: string where
  "HTTPSRouterName = ''routing-vip-https''"

definition CFRoutingPolicyName :: string where
  "CFRoutingPolicyName = ''cf-routing-policy''"

record nameRef =
  ref_Name :: string
  ref_Partition :: string

record backend =
  ServiceName :: string
  ServicePort :: int
  PoolMemberAddrs :: "string list"

record virtualAddress =
  BindAddr :: string
  Port :: int

record sslProfile =
  F5ProfileName :: string

record frontend =
  fe_Name :: string
  fe_Partition :: string
  fe_Balance :: string
  fe_Mode :: string
  VirtualAddress :: "virtualAddress option"
  fe_SSLProfile :: "sslProfile option"
  fe_Policies :: "nameRef list"
  fe_Profiles :: "nameRef list"

record routeItem =
  Backend :: backend
  Frontend :: frontend

record routeConfig =
  Item :: routeItem

record action =
  Forward :: bool
  act_Name :: string
  Pool :: string
  act_Request :: bool

record condition =
  Equals :: bool
  EndsWith :: bool
  Host :: bool
  HTTPHost :: bool
  HTTPURI :: bool
  PathSegment :: bool
  cond_Name :: string
  Index :: int
  cond_Request :: bool
  Values :: "string list"

record rule =
  FullURI :: string
  Actions :: "action list"
  Conditions :: "condition list"
  rule_Name :: string
  Ordinal :: int

record policy =
  Controls :: "string list"
  Legacy :: bool
  plcy_Name :: string
  plcy_Partition :: string
  Requires :: "string list"
  Rules :: "rule list"
  Strategy :: string

record poolData =
  Name :: string
  URI :: string
  Endpoint :: string
  Wildcard :: bool

record virtualData =
  vs_Name :: string
  vs_T :: vsType

datatype workData = pool_work poolData | virtual_work virtualData | other_work

text \<open>
  What \<^verbatim>\<open>r.queue.Get()\<close> delivers is an \<^verbatim>\<open>interface{}\<close>: a \<^verbatim>\<open>workItem\<close> with its
  operation and payload, or a value of some other type.
\<close>

datatype item = workItem operation workData | not_a_workItem

subsection \<open>Configuration and external collaborators\<close>

text \<open>
  The configuration package is outside the sources at hand; \<open>Config\<close> has the fields of
  \<^verbatim>\<open>r.c\<close> that the router reads.
\<close>

record PoliciesConfig =
  PreRouting :: "string list"
  PostRouting :: "string list"

record BigIPConfig =
  VerifyInterval :: int
  Partitions :: "string list"
  Balance :: string
  ExternalAddr :: string
  SSLProfile :: string
  Policies :: PoliciesConfig
  Profiles :: "string list"

record Config =
  Logging_Level :: string
  BigIP :: BigIPConfig

record URL =
  url_Host :: string
  url_Path :: string

datatype doc_section =
    global_section string int
  | bigip_section BigIPConfig
  | policies_section "policy list"
  | services_section "routeConfig list"

type_synonym sections = "string \<rightharpoonup> doc_section"

text \<open>
  The functions of Go's standard library and of the writer that the router calls but
  that are no part of it are parameters of the model: \<^verbatim>\<open>url.Parse\<close> (of which the router
  reads the fields \<^verbatim>\<open>Host\<close> and \<^verbatim>\<open>Path\<close>), \<^verbatim>\<open>sha256.Sum256\<close> (a 32 byte array),
  \<^verbatim>\<open>json.Marshal\<close> on the sections of a configuration document, and \<^verbatim>\<open>Write\<close> of the
  configuration writer, which answers a number of bytes and possibly an error.
\<close>

record extern =
  url_Parse :: "string \<Rightarrow> error + URL"
  sha256_Sum256 :: "string \<Rightarrow> 8 word list"
  json_Marshal :: "sections \<Rightarrow> error + string"
  writer_Write :: "string \<Rightarrow> int \<times> error option"

subsection \<open>The router's state\<close>

text \<open>
  A Go map is an association list with distinct keys, read by \<^const>\<open>map_of\<close>, written by
  \<^const>\<open>AList.update\<close> and \<^const>\<open>AList.delete\<close>; \<^verbatim>\<open>len\<close> of the map is the length of
  the list. The order of the entries stands for one of the iteration orders of the Go
  map. The values of the three maps are pointers in Go; no object is the value of two
  entries, so that writing through the pointer is an update of the entry.
\<close>

type_synonym routeMap = "(string \<times> routeConfig) list"
type_synonym ruleMap = "(string \<times> rule) list"

record F5Router =
  r_m :: routeMap
  r_r :: ruleMap
  r_wildcards :: ruleMap
  r_drainUpdate :: bool

section \<open>Functions of the standard library\<close>

definition strings_HasPrefix :: "string \<Rightarrow> string \<Rightarrow> bool" where
  "strings_HasPrefix s p = prefix p s"

definition strings_TrimPrefix :: "string \<Rightarrow> string \<Rightarrow> string" where
  "strings_TrimPrefix s p = (if prefix p s then drop (length p) s else s)"

definition strings_TrimSuffix :: "string \<Rightarrow> string \<Rightarrow> string" where
  "strings_TrimSuffix s p = (if suffix p s then take (length s - length p) s else s)"

text \<open>\<^verbatim>\<open>strings.Index\<close>: the index of the first instance of \<open>sub\<close> in \<open>s\<close>, or \<open>-1\<close>.\<close>

fun strings_Index :: "string \<Rightarrow> string \<Rightarrow> int" where
  "strings_Index [] sub = (if sub = [] then 0 else - 1)"
| "strings_Index (x # xs) sub =
     (if prefix sub (x # xs) then 0
      else (let i = strings_Index xs sub in if i < 0 then - 1 else i + 1))"

text \<open>\<^verbatim>\<open>strings.Split\<close> at a separator of one byte: \<^verbatim>\<open>Split("", "/")\<close> is \<^verbatim>\<open>[""]\<close>.\<close>

fun strings_Split :: "string \<Rightarrow> char \<Rightarrow> string list" where
  "strings_Split [] sep = [[]]"
| "strings_Split (x # xs) sep =
     (if x = sep then [] # strings_Split xs sep
      else (case strings_Split xs sep of
              [] \<Rightarrow> [[x]]
            | y # ys \<Rightarrow> (x # y) # ys))"

text \<open>The slice expression \<^verbatim>\<open>s[:i]\<close> panics unless \<open>0 \<le> i \<le> len(s)\<close>.\<close>

definition slice_to :: "string \<Rightarrow> int \<Rightarrow> panic + string" where
  "slice_to s i =
     (if i < 0 \<or> int (length s) < i then Inl slice_bounds_out_of_range
      else Inr (take (nat i) s))"

text \<open>The index expression \<^verbatim>\<open>xs[0]\<close> panics on an empty slice.\<close>

definition index0 :: "'a list \<Rightarrow> panic + 'a" where
  "index0 xs = (case xs of [] \<Rightarrow> Inl index_out_of_range | x # _ \<Rightarrow> Inr x)"

definition digit_char :: "nat \<Rightarrow> char" where
  "digit_char d = ''0123456789'' ! d"

function decimal :: "nat \<Rightarrow> string" where
  "decimal n = (if n < 10 then [digit_char n] else decimal (n div 10) @ [digit_char (n mod 10)])"
  by pat_completeness auto
termination
  by (relation "measure id") auto

declare decimal.simps [simp del]

definition strconv_Itoa :: "int \<Rightarrow> string" where
  "strconv_Itoa i = (if i < 0 then CHR ''-'' # decimal (nat (- i)) else decimal (nat i))"

text \<open>The number that a string of decimal digits denotes.\<close>

definition decimal_value :: "string \<Rightarrow> nat" where
  "decimal_value ds = foldl (\<lambda>n d. 10 * n + (of_char d - of_char CHR ''0'')) 0 ds"

definition hex_digit :: "nat \<Rightarrow> char" where
  "hex_digit d = ''0123456789abcdef'' ! d"

text \<open>The verb \<^verbatim>\<open>%x\<close> of \<^verbatim>\<open>fmt\<close> on a byte slice: two lower-case digits a byte.\<close>

definition fmt_hex :: "8 word list \<Rightarrow> string" where
  "fmt_hex bs = concat (map (\<lambda>b. [hex_digit (unat b div 16), hex_digit (unat b mod 16)]) bs)"

section \<open>Public intake\<close>

definition makePoolName :: "extern \<Rightarrow> string \<Rightarrow> panic + string" where
  "makePoolName x uri =
     (let sum = sha256_Sum256 x uri;
          index = strings_Index uri ''.''
      in case slice_to uri index of
           Inl p \<Rightarrow> Inl p
         | Inr label \<Rightarrow> Inr (label @ ''-'' @ fmt_hex (take 8 sum)))"

text \<open>
  The endpoint enters through its canonical address, the string that
  \<^verbatim>\<open>endpoint.CanonicalAddr()\<close> answers. Each intake function answers the work item it adds
  to the queue, or panics before it adds one.
\<close>

definition UpdatePoolEndpoints :: "extern \<Rightarrow> string \<Rightarrow> string \<Rightarrow> panic + item" where
  "UpdatePoolEndpoints x uri endpoint =
     (if strings_HasPrefix uri ''*.'' then
        Inr (workItem add (pool_work
          \<lparr>Name = strings_TrimPrefix uri ''*.'', URI = strings_TrimPrefix uri ''*.'',
           Endpoint = endpoint, Wildcard = True\<rparr>))
      else
        (case makePoolName x uri of
           Inl p \<Rightarrow> Inl p
         | Inr name \<Rightarrow> Inr (workItem add (pool_work
             \<lparr>Name = name, URI = uri, Endpoint = endpoint, Wildcard = False\<rparr>))))"

definition RemovePoolEndpoints :: "extern \<Rightarrow> string \<Rightarrow> string \<Rightarrow> panic + item" where
  "RemovePoolEndpoints x uri endpoint =
     (if strings_HasPrefix uri ''*.'' then
        (let u = strings_TrimPrefix uri ''*.'';
             name = u;
             wild = True
         in Inr (workItem remove (pool_work
              \<lparr>Name = name, URI = uri, Endpoint = endpoint, Wildcard = wild\<rparr>)))
      else
        (case makePoolName x uri of
           Inl p \<Rightarrow> Inl p
         | Inr name \<Rightarrow> Inr (workItem remove (pool_work
             \<lparr>Name = name, URI = uri, Endpoint = endpoint, Wildcard = False\<rparr>))))"

definition UpdateVirtualServer :: "string \<Rightarrow> vsType \<Rightarrow> item" where
  "UpdateVirtualServer name t = workItem add (virtual_work \<lparr>vs_Name = name, vs_T = t\<rparr>)"

definition RemoveVirtualServer :: "string \<Rightarrow> vsType \<Rightarrow> item" where
  "RemoveVirtualServer name t = workItem remove (virtual_work \<lparr>vs_Name = name, vs_T = t\<rparr>)"

section \<open>Rule builder\<close>

definition makePool :: "Config \<Rightarrow> string \<Rightarrow> string \<Rightarrow> string list \<Rightarrow> panic + routeConfig" where
  "makePool c name uri addrs =
     (case index0 (Partitions (BigIP c)) of
        Inl p \<Rightarrow> Inl p
      | Inr part0 \<Rightarrow> Inr
          \<lparr>Item = \<lparr>Backend = \<lparr>ServiceName = uri, ServicePort = - 1, PoolMemberAddrs = addrs\<rparr>,
                    Frontend = \<lparr>fe_Name = name, fe_Partition = part0,
                                fe_Balance = Balance (BigIP c), fe_Mode = ''http'',
                                VirtualAddress = None, fe_SSLProfile = None,
                                fe_Policies = [], fe_Profiles = []\<rparr>\<rparr>\<rparr>)"

definition host_condition :: "bool \<Rightarrow> string \<Rightarrow> condition" where
  "host_condition wildcard host =
     \<lparr>Equals = \<not> wildcard, EndsWith = wildcard, Host = True, HTTPHost = True,
      HTTPURI = False, PathSegment = False, cond_Name = ''0'', Index = 0,
      cond_Request = True, Values = [host]\<rparr>"

definition segment_condition :: "int \<Rightarrow> string \<Rightarrow> condition" where
  "segment_condition i v =
     \<lparr>Equals = True, EndsWith = False, Host = False, HTTPHost = False,
      HTTPURI = True, PathSegment = True, cond_Name = strconv_Itoa (i + 1), Index = i + 1,
      cond_Request = True, Values = [v]\<rparr>"

text \<open>The loop \<^verbatim>\<open>for i, v := range segments\<close>, from index \<open>i\<close> on.\<close>

fun segment_conditions :: "int \<Rightarrow> string list \<Rightarrow> condition list" where
  "segment_conditions i [] = []"
| "segment_conditions i (v # segments) = segment_condition i v # segment_conditions (i + 1) segments"

text \<open>
  \<^verbatim>\<open>makeRouteRule\<close> answers the error of \<^verbatim>\<open>url.Parse\<close>, or a rule; it panics at
  \<^verbatim>\<open>r.c.BigIP.Partitions[0]\<close> when no partition is configured.
\<close>

definition makeRouteRule :: "extern \<Rightarrow> Config \<Rightarrow> poolData \<Rightarrow> panic + (error + rule)" where
  "makeRouteRule x c p =
     (let u0 = ''scheme://'' @ URI p;
          u1 = strings_TrimSuffix u0 ''/''
      in case url_Parse x u1 of
           Inl err \<Rightarrow> Inr (Inl err)
         | Inr u \<Rightarrow>
             (case index0 (Partitions (BigIP c)) of
                Inl pn \<Rightarrow> Inl pn
              | Inr part0 \<Rightarrow>
                  (let b = ''/'' @ part0 @ ''/'' @ Name p;
                       a = \<lparr>Forward = True, act_Name = ''0'', Pool = b, act_Request = True\<rparr>;
                       cs = (if Wildcard p then [host_condition True (url_Host u)]
                             else host_condition False (url_Host u) #
                               (if 0 \<noteq> length (url_Path u) then
                                  (let path = strings_TrimPrefix (url_Path u) ''/'';
                                       segments = strings_Split path CHR ''/''
                                   in segment_conditions 0 segments)
                                else []))
                   in Inr (Inr \<lparr>FullURI = URI p, Actions = [a], Conditions = cs,
                                 rule_Name = Name p, Ordinal = 0\<rparr>))))"

section \<open>Policy assembler\<close>

text \<open>
  \<^verbatim>\<open>rules.Less\<close> compares the \<^verbatim>\<open>FullURI\<close> of two rules; \<^verbatim>\<open>sort.Sort(sort.Reverse(rls))\<close>
  orders the list by the converse of it. The elements of \<^verbatim>\<open>rls\<close> are the pointers held
  by the rule map; the model keeps with each of them the key under which the map holds
  it, so that the write of \<^verbatim>\<open>Ordinal\<close> through the pointer reaches the entry of the map.
  Within one rule map \<^verbatim>\<open>FullURI\<close> is the key, so no two elements compare equal and the
  sorted list does not depend on the order of iteration nor on the sorting algorithm.
\<close>

definition rules_Less :: "rule \<Rightarrow> rule \<Rightarrow> bool" where
  "rules_Less a b = (FullURI a < FullURI b)"

definition sort_Reverse :: "(string \<times> rule) list \<Rightarrow> (string \<times> rule) list" where
  "sort_Reverse rls = rev (sort_key (\<lambda>kv. FullURI (snd kv)) rls)"

fun set_ordinals :: "(string \<times> rule) list \<Rightarrow> int \<Rightarrow> (string \<times> rule) list" where
  "set_ordinals [] ordinal = []"
| "set_ordinals ((k, v) # rls) ordinal = (k, v\<lparr>Ordinal := ordinal\<rparr>) # set_ordinals rls (ordinal + 1)"

definition sortRules :: "ruleMap \<Rightarrow> int \<Rightarrow> (string \<times> rule) list" where
  "sortRules rm ordinal = set_ordinals (sort_Reverse rm) ordinal"

definition written_through :: "ruleMap \<Rightarrow> (string \<times> rule) list \<Rightarrow> ruleMap" where
  "written_through rm rls =
     map (\<lambda>(k, v). (k, case map_of rls k of Some v' \<Rightarrow> v' | None \<Rightarrow> v)) rm"

text \<open>
  The two goroutines work on disjoint data and are joined before the lists are read:
  the model runs them one after the other. The answer is the policy and the router, in
  whose rule maps the ordinals are now written.
\<close>

definition makeRoutePolicy :: "Config \<Rightarrow> F5Router \<Rightarrow> string \<Rightarrow> panic + (policy \<times> F5Router)" where
  "makeRoutePolicy c s policyName =
     (case index0 (Partitions (BigIP c)) of
        Inl pn \<Rightarrow> Inl pn
      | Inr part0 \<Rightarrow>
          (let rls = sortRules (r_r s) 0;
               w = sortRules (r_wildcards s) (int (length (r_m s)));
               plcy = \<lparr>Controls = [''forwarding''], Legacy = True, plcy_Name = policyName,
                       plcy_Partition = part0, Requires = [''http''],
                       Rules = map snd rls @ map snd w, Strategy = ''/Common/first-match''\<rparr>
           in Inr (plcy, s\<lparr>r_r := written_through (r_r s) rls,
                            r_wildcards := written_through (r_wildcards s) w\<rparr>)))"

section \<open>Event processor\<close>

subsection \<open>Pools\<close>

text \<open>The search loop of \<^verbatim>\<open>processPoolAdd\<close>.\<close>

fun endpoint_found :: "string list \<Rightarrow> string \<Rightarrow> bool" where
  "endpoint_found [] endpoint = False"
| "endpoint_found (e # es) endpoint = (if e = endpoint then True else endpoint_found es endpoint)"

text \<open>The loop of \<^verbatim>\<open>processPoolRemove\<close>: it cuts the first match out and breaks.\<close>

fun endpoint_removed :: "string list \<Rightarrow> string \<Rightarrow> string list" where
  "endpoint_removed [] endpoint = []"
| "endpoint_removed (e # es) endpoint = (if e = endpoint then es else e # endpoint_removed es endpoint)"

definition set_PoolMemberAddrs :: "string list \<Rightarrow> routeConfig \<Rightarrow> routeConfig" where
  "set_PoolMemberAddrs addrs pool =
     pool\<lparr>Item := (Item pool)\<lparr>Backend := (Backend (Item pool))\<lparr>PoolMemberAddrs := addrs\<rparr>\<rparr>\<rparr>"

definition get_PoolMemberAddrs :: "routeConfig \<Rightarrow> string list" where
  "get_PoolMemberAddrs pool = PoolMemberAddrs (Backend (Item pool))"

definition processPoolAdd :: "extern \<Rightarrow> Config \<Rightarrow> F5Router \<Rightarrow> poolData \<Rightarrow> panic + (F5Router \<times> bool)" where
  "processPoolAdd x c s p =
     (case map_of (r_m s) (Name p) of
        Some pool \<Rightarrow>
          (if \<not> endpoint_found (get_PoolMemberAddrs pool) (Endpoint p) then
             Inr (s\<lparr>r_m := AList.update (Name p)
                      (set_PoolMemberAddrs (get_PoolMemberAddrs pool @ [Endpoint p]) pool) (r_m s)\<rparr>,
                  True)
           else Inr (s, False))
      | None \<Rightarrow>
          (case makeRouteRule x c p of
             Inl pn \<Rightarrow> Inl pn
           | Inr (Inl err) \<Rightarrow> Inr (s, False)
           | Inr (Inr rule) \<Rightarrow>
               (let s1 = (if Wildcard p
                          then s\<lparr>r_wildcards := AList.update (URI p) rule (r_wildcards s)\<rparr>
                          else s\<lparr>r_r := AList.update (URI p) rule (r_r s)\<rparr>)
                in case makePool c (Name p) (URI p) [Endpoint p] of
                     Inl pn \<Rightarrow> Inl pn
                   | Inr pool \<Rightarrow> Inr (s1\<lparr>r_m := AList.update (Name p) pool (r_m s1)\<rparr>, True))))"

definition processPoolRemove :: "F5Router \<Rightarrow> poolData \<Rightarrow> F5Router \<times> bool" where
  "processPoolRemove s p =
     (case map_of (r_m s) (Name p) of
        Some pool \<Rightarrow>
          (let addrs = endpoint_removed (get_PoolMemberAddrs pool) (Endpoint p);
               s1 = s\<lparr>r_m := AList.update (Name p) (set_PoolMemberAddrs addrs pool) (r_m s)\<rparr>
           in if 0 = length addrs then
                (let s2 = s1\<lparr>r_m := AList.delete (Name p) (r_m s1)\<rparr>
                 in if Wildcard p
                    then (s2\<lparr>r_wildcards := AList.delete (URI p) (r_wildcards s2)\<rparr>, True)
                    else (s2\<lparr>r_r := AList.delete (URI p) (r_r s2)\<rparr>, True))
              else (s1, True))
      | None \<Rightarrow> (s, False))"

definition processPool ::
  "extern \<Rightarrow> Config \<Rightarrow> F5Router \<Rightarrow> operation \<Rightarrow> poolData \<Rightarrow> panic + (F5Router \<times> bool \<times> error option)" where
  "processPool x c s op p =
     (if op = add then
        (case processPoolAdd x c s p of
           Inl pn \<Rightarrow> Inl pn
         | Inr (s', ret) \<Rightarrow> Inr (s', ret, None))
      else if op = remove then
        (case processPoolRemove s p of (s', ret) \<Rightarrow> Inr (s', ret, None))
      else Inr (s, False, Some ''received unsupported pool operation''))"

subsection \<open>Virtual servers\<close>

definition makeVirtual :: "Config \<Rightarrow> string \<Rightarrow> vsType \<Rightarrow> panic + routeConfig" where
  "makeVirtual c name t =
     (let port = (if t = HTTP then 80 else if t = HTTPS then 443 else 0);
          ssl = (if t = HTTP then None
                 else if t = HTTPS then Some \<lparr>F5ProfileName = SSLProfile (BigIP c)\<rparr>
                 else None)
      in case index0 (Partitions (BigIP c)) of
           Inl pn \<Rightarrow> Inl pn
         | Inr part0 \<Rightarrow> Inr
             \<lparr>Item = \<lparr>Backend = \<lparr>ServiceName = name, ServicePort = - 1, PoolMemberAddrs = []\<rparr>,
                       Frontend = \<lparr>fe_Name = name, fe_Partition = part0,
                                   fe_Balance = Balance (BigIP c), fe_Mode = ''http'',
                                   VirtualAddress =
                                     Some \<lparr>BindAddr = ExternalAddr (BigIP c), Port = port\<rparr>,
                                   fe_SSLProfile = ssl,
                                   fe_Policies = [], fe_Profiles = []\<rparr>\<rparr>\<rparr>)"

definition processVirtualAdd :: "Config \<Rightarrow> F5Router \<Rightarrow> virtualData \<Rightarrow> panic + (F5Router \<times> bool)" where
  "processVirtualAdd c s v =
     (case makeVirtual c (vs_Name v) (vs_T v) of
        Inl pn \<Rightarrow> Inl pn
      | Inr vs \<Rightarrow> Inr (s\<lparr>r_m := AList.update (vs_Name v) vs (r_m s)\<rparr>, True))"

definition processVirtualRemove :: "F5Router \<Rightarrow> virtualData \<Rightarrow> F5Router \<times> bool" where
  "processVirtualRemove s v = (s\<lparr>r_m := AList.delete (vs_Name v) (r_m s)\<rparr>, True)"

definition processVirtual ::
  "Config \<Rightarrow> F5Router \<Rightarrow> operation \<Rightarrow> virtualData \<Rightarrow> panic + (F5Router \<times> bool \<times> error option)" where
  "processVirtual c s op v =
     (if op = add then
        (case processVirtualAdd c s v of
           Inl pn \<Rightarrow> Inl pn
         | Inr (s', ret) \<Rightarrow> Inr (s', ret, None))
      else if op = remove then
        (case processVirtualRemove s v of (s', ret) \<Rightarrow> Inr (s', ret, None))
      else Inr (s, False, Some ''received unsupported virtual operation''))"

subsection \<open>Name lists\<close>

fun generateNameList :: "string list \<Rightarrow> nameRef list" where
  "generateNameList [] = []"
| "generateNameList (name # names) =
     (let p = strings_TrimPrefix name ''/'';
          parts = strings_Split p CHR ''/''
      in if 2 = length parts
         then \<lparr>ref_Name = parts ! 1, ref_Partition = parts ! 0\<rparr> # generateNameList names
         else generateNameList names)"

definition generatePolicyList :: "Config \<Rightarrow> panic + nameRef list" where
  "generatePolicyList c =
     (case index0 (Partitions (BigIP c)) of
        Inl pn \<Rightarrow> Inl pn
      | Inr part0 \<Rightarrow> Inr
          (generateNameList (PreRouting (Policies (BigIP c)))
           @ [\<lparr>ref_Name = CFRoutingPolicyName, ref_Partition = part0\<rparr>]
           @ generateNameList (PostRouting (Policies (BigIP c)))))"

subsection \<open>The worker\<close>

text \<open>
  What one call of \<^verbatim>\<open>process\<close> did last, named after the key of the log record it
  writes on that path.
\<close>

datatype outcome =
    quit_signal_received
  | unknown_workitem
  | process_error error
  | write_not_ready
  | config_marshal_error error
  | config_write_error error
  | config_short_write
  | wrote_config string

definition decorate :: "string \<Rightarrow> nameRef list \<Rightarrow> nameRef list \<Rightarrow> routeMap \<Rightarrow> routeMap" where
  "decorate name plcs prfls rm =
     (case map_of rm name of
        Some vs \<Rightarrow>
          AList.update name
            (vs\<lparr>Item := (Item vs)\<lparr>Frontend :=
                  (Frontend (Item vs))\<lparr>fe_Policies := plcs, fe_Profiles := prfls\<rparr>\<rparr>\<rparr>) rm
      | None \<Rightarrow> rm)"

definition drain_sections :: "Config \<Rightarrow> policy \<Rightarrow> routeConfig list \<Rightarrow> sections" where
  "drain_sections c plcy services =
     [''global'' \<mapsto> global_section (Logging_Level c) (VerifyInterval (BigIP c)),
      ''bigip'' \<mapsto> bigip_section (BigIP c),
      ''policies'' \<mapsto> policies_section [plcy],
      ''services'' \<mapsto> services_section services]"

text \<open>
  The branch of \<^verbatim>\<open>process\<close> taken when \<^verbatim>\<open>r.drainUpdate\<close> is set and the queue is empty:
  the flag is cleared first, then the document is assembled, marshalled and written.
\<close>

definition drain :: "extern \<Rightarrow> Config \<Rightarrow> F5Router \<Rightarrow> panic + (F5Router \<times> outcome)" where
  "drain x c s =
     (let s0 = s\<lparr>r_drainUpdate := False\<rparr>
      in case makeRoutePolicy c s0 CFRoutingPolicyName of
           Inl pn \<Rightarrow> Inl pn
         | Inr (plcy, s1) \<Rightarrow>
             (case generatePolicyList c of
                Inl pn \<Rightarrow> Inl pn
              | Inr plcs \<Rightarrow>
                  (let prfls = generateNameList (Profiles (BigIP c));
                       m1 = decorate HTTPRouterName plcs prfls (r_m s1);
                       m2 = decorate HTTPSRouterName plcs prfls m1;
                       s2 = s1\<lparr>r_m := m2\<rparr>;
                       services = map snd (r_m s2);
                       sections = drain_sections c plcy services
                   in case json_Marshal x sections of
                        Inl err \<Rightarrow> Inr (s2, config_marshal_error err)
                      | Inr output \<Rightarrow>
                          (case writer_Write x output of
                             (n, Some err) \<Rightarrow> Inr (s2, config_write_error err)
                           | (n, None) \<Rightarrow>
                               if int (length output) \<noteq> n then Inr (s2, config_short_write)
                               else Inr (s2, wrote_config output)))))"

text \<open>
  One call of \<^verbatim>\<open>process\<close>. The queue is shared with the callers of the intake functions
  and is no part of the router's own state: \<open>got\<close> is what \<^verbatim>\<open>r.queue.Get()\<close> answers
  (\<open>None\<close> for the quit signal) and \<open>l\<close> is what \<^verbatim>\<open>r.queue.Len()\<close> answers afterwards.
  The last component of the result is the value \<^verbatim>\<open>process\<close> returns.
\<close>

definition process ::
  "extern \<Rightarrow> Config \<Rightarrow> item option \<Rightarrow> nat \<Rightarrow> F5Router \<Rightarrow> panic + (F5Router \<times> outcome \<times> bool)" where
  "process x c got l s =
     (case got of
        None \<Rightarrow> Inr (s, quit_signal_received, False)
      | Some not_a_workItem \<Rightarrow> Inr (s, unknown_workitem, True)
      | Some (workItem op work) \<Rightarrow>
          (case (case work of
                   pool_work p \<Rightarrow> processPool x c s op p
                 | virtual_work v \<Rightarrow> processVirtual c s op v
                 | other_work \<Rightarrow> Inr (s, False, None)) of
             Inl pn \<Rightarrow> Inl pn
           | Inr (s1, tryUpdate, err) \<Rightarrow>
               (let s2 = (if False = r_drainUpdate s1 then s1\<lparr>r_drainUpdate := tryUpdate\<rparr> else s1)
                in case err of
                     Some e \<Rightarrow> Inr (s2, process_error e, True)
                   | None \<Rightarrow>
                       if True = r_drainUpdate s2 \<and> 0 = l then
                         (case drain x c s2 of
                            Inl pn \<Rightarrow> Inl pn
                          | Inr (s3, out) \<Rightarrow> Inr (s3, out, True))
                       else Inr (s2, write_not_ready, True))))"

subsection \<open>Start-up\<close>

definition initial_sections :: "Config \<Rightarrow> sections" where
  "initial_sections c =
     [''global'' \<mapsto> global_section (Logging_Level c) (VerifyInterval (BigIP c)),
      ''bigip'' \<mapsto> bigip_section (BigIP c)]"

definition writeInitialConfig :: "extern \<Rightarrow> Config \<Rightarrow> error option" where
  "writeInitialConfig x c =
     (case json_Marshal x (initial_sections c) of
        Inl err \<Rightarrow> Some ''failed marshaling initial config''
      | Inr output \<Rightarrow>
          (case writer_Write x output of
             (n, Some err) \<Rightarrow> Some ''failed writing initial config''
           | (n, None) \<Rightarrow>
               if int (length output) \<noteq> n then Some ''short write from initial config''
               else None))"

definition empty_router :: F5Router where
  "empty_router = \<lparr>r_m = [], r_r = [], r_wildcards = [], r_drainUpdate = False\<rparr>"

text \<open>\<^verbatim>\<open>NewF5Router\<close>, once the configuration writer is there.\<close>

definition NewF5Router :: "extern \<Rightarrow> Config \<Rightarrow> error + F5Router" where
  "NewF5Router x c =
     (case writeInitialConfig x c of
        Some err \<Rightarrow> Inl err
      | None \<Rightarrow> Inr empty_router)"

subsection \<open>The worker's loop and the order of events\<close>

text \<open>
  \<^verbatim>\<open>runWorker\<close> calls \<^verbatim>\<open>process\<close> until it answers \<^verbatim>\<open>false\<close>. The model runs it along a
  finite list of deliveries: each is what \<^verbatim>\<open>Get\<close> hands over together with the length
  of the queue that \<^verbatim>\<open>Len\<close> reports in that call. When the list is used up the worker
  waits in \<^verbatim>\<open>Get\<close>, and the state it has then is the answer.
\<close>

fun runWorker :: "extern \<Rightarrow> Config \<Rightarrow> (item option \<times> nat) list \<Rightarrow> F5Router \<Rightarrow> panic + F5Router" where
  "runWorker x c [] s = Inr s"
| "runWorker x c ((got, l) # deliveries) s =
     (case process x c got l s of
        Inl pn \<Rightarrow> Inl pn
      | Inr (s', out, continue) \<Rightarrow> if continue then runWorker x c deliveries s' else Inr s')"

text \<open>
  A call of one of the four intake functions. \<open>intake\<close> is the work item the call adds
  to the queue. \<open>serve\<close> is a run in which the worker takes each item as soon as it is
  added (the queue is empty when \<^verbatim>\<open>Len\<close> is asked); a panic in an intake function ends
  the run.
\<close>

datatype call =
    UpdatePool string string
  | RemovePool string string
  | UpdateVirtual string vsType
  | RemoveVirtual string vsType

fun intake :: "extern \<Rightarrow> call \<Rightarrow> panic + item" where
  "intake x (UpdatePool uri endpoint) = UpdatePoolEndpoints x uri endpoint"
| "intake x (RemovePool uri endpoint) = RemovePoolEndpoints x uri endpoint"
| "intake x (UpdateVirtual name t) = Inr (UpdateVirtualServer name t)"
| "intake x (RemoveVirtual name t) = Inr (RemoveVirtualServer name t)"

fun serve :: "extern \<Rightarrow> Config \<Rightarrow> call list \<Rightarrow> F5Router \<Rightarrow> panic + F5Router" where
  "serve x c [] s = Inr s"
| "serve x c (cl # calls) s =
     (case intake x cl of
        Inl pn \<Rightarrow> Inl pn
      | Inr it \<Rightarrow>
          (case runWorker x c [(Some it, 0)] s of
             Inl pn \<Rightarrow> Inl pn
           | Inr s' \<Rightarrow> serve x c calls s'))"

text \<open>
  The general run: each call comes with the length of the queue that \<^verbatim>\<open>Len\<close> reports
  when the worker processes the item of this call. The queue drops an item that is
  equal to a pending one; the items that are processed are then those of a shorter
  list of calls.
\<close>

fun serve_at :: "extern \<Rightarrow> Config \<Rightarrow> (call \<times> nat) list \<Rightarrow> F5Router \<Rightarrow> panic + F5Router" where
  "serve_at x c [] s = Inr s"
| "serve_at x c ((cl, l) # calls) s =
     (case intake x cl of
        Inl pn \<Rightarrow> Inl pn
      | Inr it \<Rightarrow>
          (case runWorker x c [(Some it, l)] s of
             Inl pn \<Rightarrow> Inl pn
           | Inr s' \<Rightarrow> serve_at x c calls s'))"

text \<open>The set of keys of a Go map.\<close>

definition keys_of :: "('k \<times> 'v) list \<Rightarrow> 'k set" where
  "keys_of al = fst ` set al"

text \<open>The key that a work item can add to the exact and to the wildcard rule map.\<close>

fun exact_key :: "item \<Rightarrow> string set" where
  "exact_key (workItem op (pool_work p)) = (if op = add \<and> \<not> Wildcard p then {URI p} else {})"
| "exact_key it = {}"

fun wildcard_key :: "item \<Rightarrow> string set" where
  "wildcard_key (workItem op (pool_work p)) = (if op = add \<and> Wildcard p then {URI p} else {})"
| "wildcard_key it = {}"

text \<open>
  Two notions for the calls of a run. \<open>exact_uri\<close> is the URI of a pool call that is no
  wildcard. \<open>touched_name\<close> is the key of \<^verbatim>\<open>r.m\<close> that the work item of a call reads or
  writes.
\<close>

fun exact_uri :: "call \<Rightarrow> string option" where
  "exact_uri (UpdatePool uri e) = (if strings_HasPrefix uri ''*.'' then None else Some uri)"
| "exact_uri (RemovePool uri e) = (if strings_HasPrefix uri ''*.'' then None else Some uri)"
| "exact_uri (UpdateVirtual name t) = None"
| "exact_uri (RemoveVirtual name t) = None"

definition pool_call_name :: "extern \<Rightarrow> string \<Rightarrow> string option" where
  "pool_call_name x uri =
     (if strings_HasPrefix uri ''*.'' then Some (strings_TrimPrefix uri ''*.'')
      else (case makePoolName x uri of Inl pn \<Rightarrow> None | Inr name \<Rightarrow> Some name))"

fun touched_name :: "extern \<Rightarrow> call \<Rightarrow> string option" where
  "touched_name x (UpdatePool uri e) = pool_call_name x uri"
| "touched_name x (RemovePool uri e) = pool_call_name x uri"
| "touched_name x (UpdateVirtual name t) = Some name"
| "touched_name x (RemoveVirtual name t) = Some name"

text \<open>
  No pool name is shared: when a call touches the pool name of an exact URI \<open>u\<close> of the
  run, it is a pool call for \<open>u\<close> itself. This rules out two exact URIs with one pool
  name, a wildcard whose stripped URI is the pool name of an exact URI, and a virtual
  server of that name.
\<close>

definition names_not_shared :: "extern \<Rightarrow> call list \<Rightarrow> bool" where
  "names_not_shared x calls =
     (\<forall>cl \<in> set calls. \<forall>cl' \<in> set calls.
        (case exact_uri cl of
           None \<Rightarrow> True
         | Some u \<Rightarrow> touched_name x cl' = pool_call_name x u \<longrightarrow> exact_uri cl' = Some u))"

text \<open>Every exact rule is for a URI of \<open>U\<close> and has its pool record in \<^verbatim>\<open>r.m\<close>.\<close>

definition pools_for :: "extern \<Rightarrow> string set \<Rightarrow> F5Router \<Rightarrow> bool" where
  "pools_for x U s =
     (keys_of (r_r s) \<subseteq> U
      \<and> (\<forall>u \<in> keys_of (r_r s). \<exists>n. makePoolName x u = Inr n \<and> n \<in> keys_of (r_m s)))"

text \<open>The representation of the three Go maps is well formed: no key occurs twice.\<close>

definition distinct_keys :: "F5Router \<Rightarrow> bool" where
  "distinct_keys s =
     (distinct (map fst (r_m s)) \<and> distinct (map fst (r_r s)) \<and> distinct (map fst (r_wildcards s)))"

text \<open>\<^verbatim>\<open>processPoolAdd\<close> applied \<open>n\<close> times in a row to the same pool data.\<close>

fun processPoolAdd_times :: "extern \<Rightarrow> Config \<Rightarrow> poolData \<Rightarrow> nat \<Rightarrow> F5Router \<Rightarrow> panic + F5Router" where
  "processPoolAdd_times x c p 0 s = Inr s"
| "processPoolAdd_times x c p (Suc n) s =
     (case processPoolAdd x c s p of
        Inl pn \<Rightarrow> Inl pn
      | Inr (s', ret) \<Rightarrow> processPoolAdd_times x c p n s')"

text \<open>When \<^verbatim>\<open>processPoolAdd\<close> changes nothing: the pool has the endpoint, or the rule
  cannot be built.\<close>

definition add_is_noop :: "extern \<Rightarrow> Config \<Rightarrow> routeMap \<Rightarrow> poolData \<Rightarrow> bool" where
  "add_is_noop x c rm p =
     (case map_of rm (Name p) of
        Some pool \<Rightarrow> Endpoint p \<in> set (get_PoolMemberAddrs pool)
      | None \<Rightarrow> (case makeRouteRule x c p of Inr (Inl err) \<Rightarrow> True | _ \<Rightarrow> False))"

section \<open>A concrete environment\<close>

text \<open>
  The closed theorems below run the router in this environment. Each property that is
  stated for every \<open>x\<close> holds for the real collaborators; the instances here only supply
  concrete inputs.

  \<open>plain_url_Parse\<close> is what \<^verbatim>\<open>url.Parse\<close> answers on a URL \<^verbatim>\<open>scheme://host/path\<close> that
  is made of letters, digits, \<^verbatim>\<open>.\<close>, \<^verbatim>\<open>-\<close>, \<^verbatim>\<open>_\<close> and \<^verbatim>\<open>/\<close> only: the host is the text up
  to the first \<^verbatim>\<open>/\<close>, the path is the rest. It is applied to URLs of this shape only;
  its answer on any other string is not meant to be that of \<^verbatim>\<open>url.Parse\<close>.
\<close>

definition plain_byte :: "char \<Rightarrow> bool" where
  "plain_byte ch =
     (let n = (of_char ch :: nat)
      in (97 \<le> n \<and> n \<le> 122) \<or> (65 \<le> n \<and> n \<le> 90) \<or> (48 \<le> n \<and> n \<le> 57)
         \<or> ch = CHR ''.'' \<or> ch = CHR ''-'' \<or> ch = CHR ''_'' \<or> ch = CHR ''/'')"

definition plain_url_Parse :: "string \<Rightarrow> error + URL" where
  "plain_url_Parse rawurl =
     (if prefix ''scheme://'' rawurl \<and> list_all plain_byte (drop 9 rawurl) then
        (let rest = drop 9 rawurl;
             authority = takeWhile (\<lambda>ch. ch \<noteq> CHR ''/'') rest;
             path = dropWhile (\<lambda>ch. ch \<noteq> CHR ''/'') rest
         in Inr \<lparr>url_Host = authority, url_Path = path\<rparr>)
      else Inl ''parse: not a plain URL'')"

text \<open>
  The SHA-256 digests of the URIs that the closed theorems pass to \<^verbatim>\<open>makePoolName\<close>; the
  value at any other string is a filler and is never read.
\<close>

definition sha256_table :: "string \<Rightarrow> 8 word list" where
  "sha256_table uri =
     (
      if uri = ''a.b'' then
         [0x2e, 0x73, 0x36, 0xdc, 0x8e, 0xba, 0x87, 0xef,
          0x47, 0x2d, 0xf5, 0x68, 0xc3, 0x54, 0x82, 0xab,
          0xf2, 0x57, 0x5d, 0xc3, 0xe5, 0xea, 0xc0, 0xc5,
          0xc6, 0x2b, 0x8f, 0xfa, 0xea, 0xc2, 0xc9, 0x34]
      else
      if uri = ''c.d'' then
         [0x71, 0x3f, 0xf6, 0xc4, 0x9e, 0x25, 0xf2, 0x40,
          0x67, 0x82, 0xd0, 0x09, 0x1a, 0x9c, 0x6d, 0x8f,
          0x20, 0xd0, 0x9d, 0xa4, 0xd1, 0xe3, 0xe1, 0x1f,
          0x36, 0x51, 0x48, 0xc7, 0xb2, 0x27, 0xaa, 0x2d]
      else
      if uri = ''x.com'' then
         [0x7f, 0x7e, 0xd1, 0x2d, 0xfe, 0x7a, 0xf5, 0x03,
          0xdb, 0x4f, 0x7d, 0x8c, 0xfa, 0x1a, 0x26, 0x4a,
          0x4f, 0x96, 0x10, 0xfd, 0x66, 0x77, 0xb8, 0xae,
          0x29, 0x7e, 0xb9, 0xdf, 0xaf, 0xab, 0x27, 0x9d]
      else
      if uri = ''a.x'' then
         [0x23, 0x01, 0x20, 0x41, 0x74, 0x77, 0x4e, 0x9d,
          0x2d, 0x78, 0xb8, 0xee, 0x46, 0x05, 0x0b, 0xa6,
          0xb7, 0xa0, 0x19, 0xab, 0x4d, 0x95, 0x14, 0x37,
          0xf2, 0xf0, 0x05, 0x12, 0x9c, 0x51, 0xfa, 0x3b]
      else
      if uri = ''b.x'' then
         [0xbc, 0x16, 0x38, 0xf7, 0xb2, 0xeb, 0x9f, 0x6b,
          0x49, 0xe7, 0x0c, 0xee, 0x30, 0x8b, 0xea, 0x33,
          0x19, 0x0c, 0x43, 0xfc, 0xc5, 0x12, 0xe9, 0x24,
          0x25, 0xf3, 0xe5, 0xc5, 0xfd, 0x01, 0x79, 0x26]
      else
      if uri = ''a.x/'' then
         [0x8a, 0x27, 0x99, 0x53, 0xb8, 0xc1, 0xe1, 0x2b,
          0xb2, 0x25, 0xd8, 0xa2, 0x4d, 0xad, 0x09, 0x64,
          0x91, 0x02, 0x70, 0x5a, 0x8d, 0x57, 0xaa, 0x8c,
          0xaf, 0x4b, 0x72, 0x4c, 0xac, 0xb8, 0x4e, 0xa8]
      else
        replicate 32 0)"

definition accepting_Write :: "string \<Rightarrow> int \<times> error option" where
  "accepting_Write output = (int (length output), None)"

definition failing_Write :: "string \<Rightarrow> int \<times> error option" where
  "failing_Write output = (0, Some ''write failed'')"

definition short_Write :: "string \<Rightarrow> int \<times> error option" where
  "short_Write output = (int (length output) - 1, None)"

text \<open>A stand-in for \<^verbatim>\<open>json.Marshal\<close>: some non-empty byte string, whatever the document.\<close>

definition some_Marshal :: "sections \<Rightarrow> error + string" where
  "some_Marshal sections = Inr ''{}''"

definition test_extern :: extern where
  "test_extern =
     \<lparr>url_Parse = plain_url_Parse, sha256_Sum256 = sha256_table,
      json_Marshal = some_Marshal, writer_Write = accepting_Write\<rparr>"

definition test_Config :: Config where
  "test_Config =
     \<lparr>Logging_Level = ''info'',
      BigIP = \<lparr>VerifyInterval = 30, Partitions = [''cf''], Balance = ''round-robin'',
               ExternalAddr = ''192.168.1.1'', SSLProfile = ''Common/clientssl'',
               Policies = \<lparr>PreRouting = [], PostRouting = []\<rparr>, Profiles = []\<rparr>\<rparr>"

text \<open>
  The router after \<^verbatim>\<open>UpdatePoolEndpoints("*.x.y", 10.0.0.1:80)\<close> has been served from the
  empty router (lemma \<open>xy_router_served\<close> below).
\<close>

definition xy_router :: F5Router where
  "xy_router =
     \<lparr>r_m = [(''x.y'',
         \<lparr>Item = \<lparr>Backend = \<lparr>ServiceName = ''x.y'', ServicePort = - 1,
                              PoolMemberAddrs = [''10.0.0.1:80'']\<rparr>,
                   Frontend = \<lparr>fe_Name = ''x.y'', fe_Partition = ''cf'',
                               fe_Balance = ''round-robin'', fe_Mode = ''http'',
                               VirtualAddress = None, fe_SSLProfile = None,
                               fe_Policies = [], fe_Profiles = []\<rparr>\<rparr>\<rparr>)],
      r_r = [],
      r_wildcards = [(''x.y'',
         \<lparr>FullURI = ''x.y'',
          Actions = [\<lparr>Forward = True, act_Name = ''0'', Pool = ''/cf/x.y'', act_Request = True\<rparr>],
          Conditions = [\<lparr>Equals = False, EndsWith = True, Host = True, HTTPHost = True,
                         HTTPURI = False, PathSegment = False, cond_Name = ''0'', Index = 0,
                         cond_Request = True, Values = [''x.y'']\<rparr>],
          rule_Name = ''x.y'', Ordinal = 1\<rparr>)],
      r_drainUpdate = False\<rparr>"

text \<open>
  The router of the ordering scenario: the exact URI \<^verbatim>\<open>b.x\<close>, the wildcard \<^verbatim>\<open>*.x\<close> and
  the exact URI \<^verbatim>\<open>a.x\<close> have been added, in this order.
\<close>

definition scenario5_router :: F5Router where
  "scenario5_router =
     projr (serve test_extern test_Config
       [UpdatePool ''b.x'' ''10.0.0.1:80'', UpdatePool ''*.x'' ''10.0.0.1:80'',
        UpdatePool ''a.x'' ''10.0.0.1:80''] empty_router)"

text \<open>
  The pool data of \<^verbatim>\<open>UpdatePoolEndpoints("a.x/", 10.0.0.3:1)\<close> (lemma \<open>ax_pool_intake\<close>
  below), and the router after the worker has processed this item, with an empty queue,
  from the empty router.
\<close>

definition ax_pool :: poolData where
  "ax_pool = \<lparr>Name = ''a-8a279953b8c1e12b'', URI = ''a.x/'', Endpoint = ''10.0.0.3:1'', Wildcard = False\<rparr>"

definition ax_router :: F5Router where
  "ax_router = fst (projr (process test_extern test_Config (Some (workItem add (pool_work ax_pool))) 0 empty_router))"

section \<open>Pool names\<close>

lemma strings_Index_absent: "c \<notin> set uri \<Longrightarrow> strings_Index uri [c] = - 1"
  by (induction uri) (auto simp: Let_def)

lemma strings_Index_present:
  "c \<in> set uri \<Longrightarrow> strings_Index uri [c] = int (length (takeWhile (\<lambda>d. d \<noteq> c) uri))"
  by (induction uri) (auto simp: Let_def)

lemma no_dot_not_wildcard: "CHR ''.'' \<notin> set uri \<Longrightarrow> \<not> strings_HasPrefix uri ''*.''"
  by (auto simp: strings_HasPrefix_def prefix_def)

text \<open>
  Claim C10. \<^verbatim>\<open>makePoolName\<close> returns exactly on the URIs that contain a dot, where the
  name is the first label, a dash and the hexadecimal form of the first eight bytes of
  the digest. On a URI without a dot \<^verbatim>\<open>strings.Index\<close> answers \<open>-1\<close>, the slice
  \<^verbatim>\<open>uri[:-1]\<close> panics, and so do \<^verbatim>\<open>UpdatePoolEndpoints\<close> and \<^verbatim>\<open>RemovePoolEndpoints\<close>,
  for which such a URI is never a wildcard.
\<close>

theorem makePoolName_total_iff_dot:
  "if CHR ''.'' \<in> set uri
   then makePoolName x uri =
          Inr (takeWhile (\<lambda>d. d \<noteq> CHR ''.'') uri @ ''-'' @ fmt_hex (take 8 (sha256_Sum256 x uri)))
   else strings_Index uri ''.'' = - 1
      \<and> makePoolName x uri = Inl slice_bounds_out_of_range
      \<and> UpdatePoolEndpoints x uri endpoint = Inl slice_bounds_out_of_range
      \<and> RemovePoolEndpoints x uri endpoint = Inl slice_bounds_out_of_range"
proof (cases "CHR ''.'' \<in> set uri")
  case True
  have "length (takeWhile (\<lambda>d. d \<noteq> CHR ''.'') uri) \<le> length uri"
    by (rule length_takeWhile_le)
  moreover have "take (length (takeWhile (\<lambda>d. d \<noteq> CHR ''.'') uri)) uri
      = takeWhile (\<lambda>d. d \<noteq> CHR ''.'') uri"
    by (metis append_eq_conv_conj takeWhile_dropWhile_id)
  ultimately show ?thesis
    using True strings_Index_present [of "CHR ''.''" uri]
    by (simp add: makePoolName_def slice_to_def Let_def)
next
  case False
  then have i: "strings_Index uri ''.'' = - 1"
    by (rule strings_Index_absent)
  then have n: "makePoolName x uri = Inl slice_bounds_out_of_range"
    by (simp add: makePoolName_def slice_to_def Let_def)
  show ?thesis
    using False i n no_dot_not_wildcard [OF False]
    by (simp add: UpdatePoolEndpoints_def RemovePoolEndpoints_def)
qed

theorem makePoolName_total_iff_dot_witness:
  "makePoolName test_extern ''localhost'' = Inl slice_bounds_out_of_range
   \<and> UpdatePoolEndpoints test_extern ''localhost'' ''10.0.0.1:80'' = Inl slice_bounds_out_of_range
   \<and> RemovePoolEndpoints test_extern ''localhost'' ''10.0.0.1:80'' = Inl slice_bounds_out_of_range"
  using makePoolName_total_iff_dot [of "''localhost''" test_extern "''10.0.0.1:80''"] by simp

section \<open>Decimal strings\<close>

text \<open>\<^verbatim>\<open>strconv.Itoa\<close> of a number that is not negative is a decimal numeral of this number.\<close>

lemma digit_char_value: "d < 10 \<Longrightarrow> of_char (digit_char d) = (of_char CHR ''0'' :: nat) + d"
proof -
  assume "d < 10"
  then consider "d = 0" | "d = 1" | "d = 2" | "d = 3" | "d = 4" | "d = 5" | "d = 6" | "d = 7"
    | "d = 8" | "d = 9"
    by (auto simp: numeral_eq_Suc less_Suc_eq)
  then show ?thesis
    by cases (simp_all add: digit_char_def)
qed

lemma decimal_value_snoc:
  "decimal_value (ds @ [d]) = 10 * decimal_value ds + (of_char d - of_char CHR ''0'')"
  by (simp add: decimal_value_def)

lemma decimal_value_decimal: "decimal_value (decimal n) = n"
proof (induction n rule: decimal.induct)
  case (1 n)
  show ?case
  proof (cases "n < 10")
    case True
    then show ?thesis
      using digit_char_value [of n]
      by (subst decimal.simps) (simp add: decimal_value_def)
  next
    case False
    have "decimal n = decimal (n div 10) @ [digit_char (n mod 10)]"
      using False by (subst decimal.simps) simp
    then show ?thesis
      using 1 False digit_char_value [of "n mod 10"]
      by (simp add: decimal_value_snoc)
  qed
qed

lemma strconv_Itoa_value: "0 \<le> i \<Longrightarrow> int (decimal_value (strconv_Itoa i)) = i"
  by (simp add: strconv_Itoa_def decimal_value_decimal)

section \<open>Splitting a string\<close>

text \<open>
  What \<^verbatim>\<open>strings.Split\<close> answers: a list that is not empty, none of whose elements
  holds the separator, and that gives the string back when the elements are joined
  by the separator; it is the only such list.
\<close>

lemma strings_Split_nonempty: "strings_Split s sep \<noteq> []"
  by (induction s) (auto split: list.splits)



lemma strings_Split_plain: "sep \<notin> set a \<Longrightarrow> strings_Split a sep = [a]"
  by (induction a) auto

lemma strings_Split_append:
  "sep \<notin> set a \<Longrightarrow> strings_Split (a @ sep # rest) sep = a # strings_Split rest sep"
  by (induction a) (auto split: list.splits)

lemma strings_Split_joined:
  "segs \<noteq> [] \<Longrightarrow> \<forall>seg \<in> set segs. sep \<notin> set seg \<Longrightarrow>
     strings_Split (tl (concat (map ((#) sep) segs))) sep = segs"
proof (induction segs rule: induct_list012)
  case 1
  then show ?case by simp
next
  case (2 a)
  then show ?case by (simp add: strings_Split_plain)
next
  case (3 a b bs)
  have a: "sep \<notin> set a"
    using 3(4) by simp
  have joined: "tl (concat (map ((#) sep) (a # b # bs)))
      = a @ sep # tl (concat (map ((#) sep) (b # bs)))"
    by simp
  have rest: "strings_Split (tl (concat (map ((#) sep) (b # bs)))) sep = b # bs"
    using 3 by simp
  show ?case
    unfolding joined strings_Split_append [OF a] rest ..
qed

lemma strings_Split_unique:
  assumes "segs \<noteq> []" and "\<forall>seg \<in> set segs. sep \<notin> set seg"
    and "concat (map ((#) sep) segs) = sep # s"
  shows "strings_Split s sep = segs"
  using strings_Split_joined [OF assms(1) assms(2)] assms(3) by simp

lemma strings_Split_length: "length (strings_Split s sep) = Suc (count_list s sep)"
  by (induction s) (auto split: list.splits simp: strings_Split_nonempty)



section \<open>Rule builder: the conditions of a rule\<close>




section \<open>Start-up: the initial document\<close>

text \<open>
  Claim C9, as stated, fails: the document that \<^verbatim>\<open>writeInitialConfig\<close> marshals has no
  \<^verbatim>\<open>services\<close> section at all.
\<close>

theorem initial_sections_services_counterexample:
  "initial_sections test_Config ''services'' = None"
  by (simp add: initial_sections_def)

text \<open>
  Claim C9, amended. The initial document has exactly the two sections \<^verbatim>\<open>global\<close> and
  \<^verbatim>\<open>bigip\<close>, and neither a \<^verbatim>\<open>services\<close> nor a \<^verbatim>\<open>policies\<close> section; start-up succeeds
  exactly when this document is marshalled and written in full.
\<close>

theorem initial_sections_global_bigip:
  "dom (initial_sections c) = {''global'', ''bigip''}
   \<and> initial_sections c ''global'' = Some (global_section (Logging_Level c) (VerifyInterval (BigIP c)))
   \<and> initial_sections c ''bigip'' = Some (bigip_section (BigIP c))
   \<and> initial_sections c ''services'' = None
   \<and> initial_sections c ''policies'' = None
   \<and> (writeInitialConfig x c = None) =
       (\<exists>output. json_Marshal x (initial_sections c) = Inr output
                \<and> writer_Write x output = (int (length output), None))"
proof -
  have "(writeInitialConfig x c = None) =
       (\<exists>output. json_Marshal x (initial_sections c) = Inr output
                \<and> writer_Write x output = (int (length output), None))"
    by (auto simp: writeInitialConfig_def split: sum.splits prod.splits option.splits)
  then show ?thesis
    by (auto simp: initial_sections_def)
qed

theorem initial_sections_global_bigip_witness:
  "dom (initial_sections test_Config) = {''global'', ''bigip''}
   \<and> initial_sections test_Config ''global'' = Some (global_section ''info'' 30)
   \<and> writeInitialConfig test_extern test_Config = None"
proof -
  have "json_Marshal test_extern (initial_sections test_Config) = Inr ''{}''
      \<and> writer_Write test_extern ''{}'' = (int (length ''{}''), None)"
    by (simp add: test_extern_def some_Marshal_def accepting_Write_def)
  then show ?thesis
    using initial_sections_global_bigip [of test_Config test_extern]
    by (auto simp: test_Config_def)
qed

section \<open>The worker: a failed write\<close>

lemma makeRoutePolicy_drainUpdate:
  "makeRoutePolicy c s n = Inr (plcy, s') \<Longrightarrow> r_drainUpdate s' = r_drainUpdate s"
  by (auto simp: makeRoutePolicy_def Let_def split: sum.splits)

lemma drain_clears:
  "drain x c s = Inr (s', out) \<Longrightarrow> r_drainUpdate s' = False"
  by (auto simp: drain_def Let_def dest!: makeRoutePolicy_drainUpdate
      split: sum.splits prod.splits option.splits if_splits)

text \<open>
  Claim C2, as stated, fails: at an emission point the flag is cleared before the
  document is written, and neither an error of \<^verbatim>\<open>Write\<close> nor a short write sets it
  again.
\<close>

theorem failed_write_counterexample:
  "(case process (test_extern\<lparr>writer_Write := failing_Write\<rparr>) test_Config
           (Some (UpdateVirtualServer HTTPRouterName HTTP)) 0 empty_router of
      Inl pn \<Rightarrow> False
    | Inr (s', out, continue) \<Rightarrow>
        out = config_write_error ''write failed'' \<and> r_drainUpdate s' = False)
   \<and> (case process (test_extern\<lparr>writer_Write := short_Write\<rparr>) test_Config
           (Some (UpdateVirtualServer HTTPRouterName HTTP)) 0 empty_router of
      Inl pn \<Rightarrow> False
    | Inr (s', out, continue) \<Rightarrow>
        out = config_short_write \<and> r_drainUpdate s' = False)"
  by code_simp

text \<open>
  Claim C2, amended. Whenever a call of \<^verbatim>\<open>process\<close> ends with a failed write (an error
  of \<^verbatim>\<open>Write\<close>, or fewer bytes written than the document has), it was at an emission
  point (the queue was empty) and the flag \<^verbatim>\<open>drainUpdate\<close> is clear afterwards: the
  failure is logged and the emission is not tried again until a later item sets the
  flag.
\<close>

theorem process_failed_write_clears_drainUpdate:
  assumes "process x c got l s = Inr (s', out, continue)"
    and "out = config_write_error e \<or> out = config_short_write"
  shows "r_drainUpdate s' = False \<and> l = 0"
  using assms
  by (auto simp: process_def Let_def dest: drain_clears
      split: option.splits item.splits sum.splits prod.splits if_splits)

theorem process_failed_write_clears_drainUpdate_witness:
  "snd (projr (process (test_extern\<lparr>writer_Write := failing_Write\<rparr>) test_Config
           (Some (UpdateVirtualServer HTTPRouterName HTTP)) 0 empty_router))
     = (config_write_error ''write failed'', True)
   \<and> r_drainUpdate (fst (projr (process (test_extern\<lparr>writer_Write := failing_Write\<rparr>) test_Config
           (Some (UpdateVirtualServer HTTPRouterName HTTP)) 0 empty_router))) = False"
proof -
  let ?R = "process (test_extern\<lparr>writer_Write := failing_Write\<rparr>) test_Config
           (Some (UpdateVirtualServer HTTPRouterName HTTP)) 0 empty_router"
  have run: "?R = Inr (fst (projr ?R), config_write_error ''write failed'', True)"
    by code_simp
  have out: "config_write_error ''write failed'' = config_write_error ''write failed''
      \<or> config_write_error ''write failed'' = config_short_write"
    by simp
  have "r_drainUpdate (fst (projr ?R)) = False \<and> (0::nat) = 0"
    using process_failed_write_clears_drainUpdate [OF run out] .
  moreover have "snd (projr ?R) = (config_write_error ''write failed'', True)"
    by (subst run) simp
  ultimately show ?thesis by simp
qed

section \<open>Removing an endpoint that the pool does not have\<close>

lemma xy_router_served:
  "serve test_extern test_Config [UpdatePool ''*.x.y'' ''10.0.0.1:80''] empty_router = Inr xy_router"
  by code_simp

lemma endpoint_removed_absent: "endpoint \<notin> set es \<Longrightarrow> endpoint_removed es endpoint = es"
  by (induction es) auto

lemma set_get_PoolMemberAddrs: "set_PoolMemberAddrs (get_PoolMemberAddrs pool) pool = pool"
  by (simp add: set_PoolMemberAddrs_def get_PoolMemberAddrs_def)

text \<open>
  Claim C3, as stated, fails. With the pool \<^verbatim>\<open>x.y\<close> holding one endpoint, a remove item
  for another endpoint leaves the maps as they are but sets \<^verbatim>\<open>drainUpdate\<close>. And a pool
  record with an empty list, which a virtual server has, is deleted by a remove item
  that bears its name.
\<close>

theorem remove_absent_endpoint_counterexample:
  "(case RemovePoolEndpoints test_extern ''*.x.y'' ''10.0.0.9:80'' of
      Inl pn \<Rightarrow> False
    | Inr it \<Rightarrow>
        (case process test_extern test_Config (Some it) 1 xy_router of
           Inl pn \<Rightarrow> False
         | Inr (s', out, continue) \<Rightarrow>
             r_drainUpdate xy_router = False \<and> r_drainUpdate s' = True
             \<and> r_m s' = r_m xy_router \<and> r_r s' = r_r xy_router
             \<and> r_wildcards s' = r_wildcards xy_router))
   \<and> (case serve test_extern test_Config
             [UpdateVirtual ''routing-vip-http'' HTTP, RemovePool ''*.routing-vip-http'' ''10.0.0.9:80'']
             empty_router of
        Inl pn \<Rightarrow> False
      | Inr s' \<Rightarrow> r_m s' = [])"
  by code_simp

text \<open>
  Claim C3, amended. For a remove item whose pool record exists with a list of
  endpoints that is not empty and does not hold the item's endpoint,
  \<^verbatim>\<open>processPoolRemove\<close> leaves the three maps as they are and reports a change: it
  returns \<^verbatim>\<open>true\<close>, so that \<^verbatim>\<open>process\<close> sets \<^verbatim>\<open>drainUpdate\<close> (seen here with further
  items in the queue, where nothing else happens in the call).
\<close>

theorem processPoolRemove_absent_endpoint:
  assumes "map_of (r_m s) (Name p) = Some pool"
    and "Endpoint p \<notin> set (get_PoolMemberAddrs pool)"
    and "get_PoolMemberAddrs pool \<noteq> []"
  shows "processPoolRemove s p = (s, True)
    \<and> process x c (Some (workItem remove (pool_work p))) (Suc l) s
        = Inr (s\<lparr>r_drainUpdate := True\<rparr>, write_not_ready, True)"
proof -
  have rm: "processPoolRemove s p = (s, True)"
    using assms
    by (simp add: processPoolRemove_def Let_def endpoint_removed_absent
        set_get_PoolMemberAddrs AList.update_triv)
  have "r_drainUpdate s \<Longrightarrow> s\<lparr>r_drainUpdate := True\<rparr> = s"
    by simp
  then show ?thesis
    using rm by (auto simp: process_def processPool_def Let_def)
qed

theorem processPoolRemove_absent_endpoint_witness:
  "processPoolRemove xy_router
      \<lparr>Name = ''x.y'', URI = ''*.x.y'', Endpoint = ''10.0.0.9:80'', Wildcard = True\<rparr>
     = (xy_router, True)
   \<and> process test_extern test_Config
        (Some (workItem remove (pool_work
           \<lparr>Name = ''x.y'', URI = ''*.x.y'', Endpoint = ''10.0.0.9:80'', Wildcard = True\<rparr>)))
        (Suc 0) xy_router
     = Inr (xy_router\<lparr>r_drainUpdate := True\<rparr>, write_not_ready, True)"
proof -
  let ?p = "\<lparr>Name = ''x.y'', URI = ''*.x.y'', Endpoint = ''10.0.0.9:80'', Wildcard = True\<rparr>"
  let ?pool = "the (map_of (r_m xy_router) ''x.y'')"
  have h1: "map_of (r_m xy_router) (Name ?p) = Some ?pool"
    by (simp add: xy_router_def)
  have h2: "Endpoint ?p \<notin> set (get_PoolMemberAddrs ?pool)"
    by (simp add: xy_router_def get_PoolMemberAddrs_def)
  have h3: "get_PoolMemberAddrs ?pool \<noteq> []"
    by (simp add: xy_router_def get_PoolMemberAddrs_def)
  show ?thesis
    using processPoolRemove_absent_endpoint [OF h1 h2 h3, of test_extern test_Config 0] .
qed

section \<open>Policy assembler: order and ordinals\<close>

lemma set_ordinals_length: "length (set_ordinals rls k) = length rls"
  by (induction rls k rule: set_ordinals.induct) auto

lemma set_ordinals_keys: "map fst (set_ordinals rls k) = map fst rls"
  by (induction rls k rule: set_ordinals.induct) auto

lemma set_ordinals_FullURI:
  "map (\<lambda>kv. FullURI (snd kv)) (set_ordinals rls k) = map (\<lambda>kv. FullURI (snd kv)) rls"
  by (induction rls k rule: set_ordinals.induct) auto

lemma set_ordinals_erased:
  "map (\<lambda>kv. (snd kv)\<lparr>Ordinal := 0\<rparr>) (set_ordinals rls k) = map (\<lambda>kv. (snd kv)\<lparr>Ordinal := 0\<rparr>) rls"
  by (induction rls k rule: set_ordinals.induct) auto

lemma set_ordinals_Ordinal:
  "map (\<lambda>kv. Ordinal (snd kv)) (set_ordinals rls k) = map (\<lambda>i. k + int i) [0..<length rls]"
proof (induction rls k rule: set_ordinals.induct)
  case (1 ordinal)
  show ?case by simp
next
  case (2 k v rls ordinal)
  have "map (\<lambda>i. ordinal + int i) [0..<length ((k, v) # rls)]
      = ordinal # map (\<lambda>i. ordinal + 1 + int i) [0..<length rls]"
    by (simp add: map_upt_Suc add.assoc del: upt_Suc)
  with 2 show ?case by simp
qed

lemma sort_Reverse_mset: "mset (sort_Reverse rls) = mset rls"
  by (simp add: sort_Reverse_def)

lemma sort_Reverse_length: "length (sort_Reverse rls) = length rls"
  by (simp add: sort_Reverse_def)

lemma sort_Reverse_sorted:
  "sorted_wrt (\<lambda>a b. b \<le> a) (map (\<lambda>kv. FullURI (snd kv)) (sort_Reverse rls))"
proof -
  have "sorted (map (\<lambda>kv. FullURI (snd kv)) (sort_key (\<lambda>kv. FullURI (snd kv)) rls))"
    by (rule sorted_sort_key)
  then show ?thesis
    by (simp add: sort_Reverse_def rev_map [symmetric] sorted_wrt_rev)
qed

lemma sortRules_length: "length (sortRules rm k) = length rm"
  by (simp add: sortRules_def set_ordinals_length sort_Reverse_length)

lemma sortRules_sorted:
  "sorted_wrt (\<lambda>a b. FullURI b \<le> FullURI a) (map snd (sortRules rm k))"
proof -
  have "sorted_wrt (\<lambda>a b. b \<le> a) (map FullURI (map snd (sortRules rm k)))"
    using sort_Reverse_sorted [of rm] set_ordinals_FullURI [of "sort_Reverse rm" k]
    by (simp add: sortRules_def comp_def)
  then show ?thesis
    by (simp add: sorted_wrt_map)
qed

lemma sortRules_Ordinal:
  "map Ordinal (map snd (sortRules rm k)) = map (\<lambda>i. k + int i) [0..<length rm]"
  using set_ordinals_Ordinal [of "sort_Reverse rm" k]
  by (simp add: sortRules_def comp_def sort_Reverse_length)

lemma sortRules_mset:
  "mset (map (\<lambda>v. v\<lparr>Ordinal := 0\<rparr>) (map snd (sortRules rm k)))
     = mset (map (\<lambda>v. v\<lparr>Ordinal := 0\<rparr>) (map snd rm))"
proof -
  have "map (\<lambda>v. v\<lparr>Ordinal := 0\<rparr>) (map snd (sortRules rm k))
      = map (\<lambda>kv. (snd kv)\<lparr>Ordinal := 0\<rparr>) (sort_Reverse rm)"
    using set_ordinals_erased [of "sort_Reverse rm" k] by (simp add: sortRules_def comp_def)
  moreover have "mset (map (\<lambda>kv. (snd kv)\<lparr>Ordinal := 0\<rparr>) (sort_Reverse rm))
      = mset (map (\<lambda>kv. (snd kv)\<lparr>Ordinal := 0\<rparr>) rm)"
    using sort_Reverse_mset [of rm] by (metis mset_map)
  ultimately show ?thesis by (simp add: comp_def)
qed

lemma makeRoutePolicy_Rules:
  assumes "Partitions (BigIP c) \<noteq> []"
  shows "\<exists>plcy s'. makeRoutePolicy c s name = Inr (plcy, s')
    \<and> Rules plcy = map snd (sortRules (r_r s) 0)
                    @ map snd (sortRules (r_wildcards s) (int (length (r_m s))))"
proof -
  obtain part0 ps where "Partitions (BigIP c) = part0 # ps"
    using assms by (cases "Partitions (BigIP c)") auto
  then show ?thesis
    by (simp add: makeRoutePolicy_def index0_def Let_def)
qed

text \<open>
  Claim C6. For every router (with a partition configured) the rules of the assembled
  policy are the rules of the exact map followed by the rules of the wildcard map:
  the first \<open>length (r_r s)\<close> entries are, up to their ordinals, the rules of \<^verbatim>\<open>r.r\<close>,
  the others those of \<^verbatim>\<open>r.wildcards\<close>; each part is in descending order of \<^verbatim>\<open>FullURI\<close>;
  and the ordinals, read in this order, are \<open>0, 1, 2, \<dots>\<close> in the exact part and
  \<open>len(r.m), len(r.m) + 1, \<dots>\<close> in the wildcard part.
\<close>

theorem makeRoutePolicy_sorted_ordinals:
  assumes "Partitions (BigIP c) \<noteq> []"
  shows "\<exists>plcy s'. makeRoutePolicy c s name = Inr (plcy, s')
    \<and> (let E = take (length (r_r s)) (Rules plcy);
            W = drop (length (r_r s)) (Rules plcy)
        in Rules plcy = E @ W
         \<and> mset (map (\<lambda>v. v\<lparr>Ordinal := 0\<rparr>) E) = mset (map (\<lambda>v. v\<lparr>Ordinal := 0\<rparr>) (map snd (r_r s)))
         \<and> mset (map (\<lambda>v. v\<lparr>Ordinal := 0\<rparr>) W)
             = mset (map (\<lambda>v. v\<lparr>Ordinal := 0\<rparr>) (map snd (r_wildcards s)))
         \<and> sorted_wrt (\<lambda>a b. FullURI b \<le> FullURI a) E
         \<and> sorted_wrt (\<lambda>a b. FullURI b \<le> FullURI a) W
         \<and> map Ordinal E = map int [0..<length (r_r s)]
         \<and> map Ordinal W
             = map (\<lambda>i. int (length (r_m s)) + int i) [0..<length (r_wildcards s)])"
proof -
  obtain plcy s' where run: "makeRoutePolicy c s name = Inr (plcy, s')"
    and rules: "Rules plcy = map snd (sortRules (r_r s) 0)
                    @ map snd (sortRules (r_wildcards s) (int (length (r_m s))))"
    using makeRoutePolicy_Rules [OF assms] by blast
  have E: "take (length (r_r s)) (Rules plcy) = map snd (sortRules (r_r s) 0)"
    by (simp add: rules sortRules_length)
  have W: "drop (length (r_r s)) (Rules plcy)
      = map snd (sortRules (r_wildcards s) (int (length (r_m s))))"
    by (simp add: rules sortRules_length)
  have "Rules plcy = take (length (r_r s)) (Rules plcy) @ drop (length (r_r s)) (Rules plcy)"
    by simp
  moreover have "mset (map (\<lambda>v. v\<lparr>Ordinal := 0\<rparr>) (take (length (r_r s)) (Rules plcy)))
      = mset (map (\<lambda>v. v\<lparr>Ordinal := 0\<rparr>) (map snd (r_r s)))"
    unfolding E by (rule sortRules_mset)
  moreover have "mset (map (\<lambda>v. v\<lparr>Ordinal := 0\<rparr>) (drop (length (r_r s)) (Rules plcy)))
      = mset (map (\<lambda>v. v\<lparr>Ordinal := 0\<rparr>) (map snd (r_wildcards s)))"
    unfolding W by (rule sortRules_mset)
  moreover have "sorted_wrt (\<lambda>a b. FullURI b \<le> FullURI a) (take (length (r_r s)) (Rules plcy))"
    unfolding E by (rule sortRules_sorted)
  moreover have "sorted_wrt (\<lambda>a b. FullURI b \<le> FullURI a) (drop (length (r_r s)) (Rules plcy))"
    unfolding W by (rule sortRules_sorted)
  moreover have "map Ordinal (take (length (r_r s)) (Rules plcy)) = map int [0..<length (r_r s)]"
    unfolding E using sortRules_Ordinal [of "r_r s" 0] by simp
  moreover have "map Ordinal (drop (length (r_r s)) (Rules plcy))
      = map (\<lambda>i. int (length (r_m s)) + int i) [0..<length (r_wildcards s)]"
    unfolding W by (rule sortRules_Ordinal)
  ultimately show ?thesis
    using run unfolding Let_def by blast
qed


lemma scenario5_router_served:
  "serve test_extern test_Config
       [UpdatePool ''b.x'' ''10.0.0.1:80'', UpdatePool ''*.x'' ''10.0.0.1:80'',
        UpdatePool ''a.x'' ''10.0.0.1:80''] empty_router = Inr scenario5_router"
  by code_simp

theorem makeRoutePolicy_sorted_ordinals_witness:
  "Partitions (BigIP test_Config) \<noteq> []
   \<and> (\<exists>plcy s'. makeRoutePolicy test_Config scenario5_router CFRoutingPolicyName = Inr (plcy, s')
        \<and> map (\<lambda>v. (FullURI v, Ordinal v)) (Rules plcy) = [(''b.x'', 0), (''a.x'', 1), (''x'', 3)])"
proof -
  have part: "Partitions (BigIP test_Config) \<noteq> []"
    by (simp add: test_Config_def)
  obtain plcy s' where
    run: "makeRoutePolicy test_Config scenario5_router CFRoutingPolicyName = Inr (plcy, s')"
    using makeRoutePolicy_sorted_ordinals [OF part, of scenario5_router CFRoutingPolicyName]
    by blast
  have "map (\<lambda>v. (FullURI v, Ordinal v))
          (Rules (fst (projr (makeRoutePolicy test_Config scenario5_router CFRoutingPolicyName))))
      = [(''b.x'', 0), (''a.x'', 1), (''x'', 3)]"
    by code_simp
  with run part show ?thesis by simp
qed

text \<open>
  Claim C5, as stated, fails. The ordinals of the wildcard rules start at the number of
  pool records, and \<^verbatim>\<open>r.m\<close> can hold fewer records than \<^verbatim>\<open>r.r\<close> holds rules: a pool record
  is deleted by name, by \<^verbatim>\<open>RemoveVirtualServer\<close> or by a wildcard remove whose stripped
  URI is that name, and the exact rule of the pool stays behind. Here two exact rules
  are left with one pool, and the exact rule \<^verbatim>\<open>a.b\<close> and the wildcard rule \<^verbatim>\<open>z.w\<close> both
  get the ordinal 1. Each of the two runs has a call that touches the pool name of an
  exact URI of the run.
\<close>

theorem exact_before_wildcard_counterexample:
  "(case serve test_extern test_Config
       [UpdatePool ''a.b'' ''10.0.0.1:80'', UpdatePool ''c.d'' ''10.0.0.1:80'',
        RemoveVirtual ''a-2e7336dc8eba87ef'' HTTP, RemoveVirtual ''c-713ff6c49e25f240'' HTTP,
        UpdatePool ''*.z.w'' ''10.0.0.1:80''] empty_router of
      Inl pn \<Rightarrow> False
    | Inr s \<Rightarrow>
        map fst (r_m s) = [''z.w''] \<and> map fst (r_r s) = [''a.b'', ''c.d'']
        \<and> map fst (r_wildcards s) = [''z.w'']
        \<and> (case makeRoutePolicy test_Config s CFRoutingPolicyName of
              Inl pn \<Rightarrow> False
            | Inr (plcy, s') \<Rightarrow>
                map (\<lambda>v. (FullURI v, Ordinal v)) (Rules plcy)
                  = [(''c.d'', 0), (''a.b'', 1), (''z.w'', 1)]))
   \<and> (case serve test_extern test_Config
       [UpdatePool ''a.b'' ''10.0.0.1:80'', UpdatePool ''c.d'' ''10.0.0.1:80'',
        RemovePool ''*.a-2e7336dc8eba87ef'' ''10.0.0.1:80'',
        RemovePool ''*.c-713ff6c49e25f240'' ''10.0.0.1:80'',
        UpdatePool ''*.z.w'' ''10.0.0.1:80''] empty_router of
      Inl pn \<Rightarrow> False
    | Inr s \<Rightarrow>
        (case makeRoutePolicy test_Config s CFRoutingPolicyName of
              Inl pn \<Rightarrow> False
            | Inr (plcy, s') \<Rightarrow>
                map (\<lambda>v. (FullURI v, Ordinal v)) (Rules plcy)
                  = [(''c.d'', 0), (''a.b'', 1), (''z.w'', 1)]))"
  by code_simp

text \<open>
  The ordering in an arbitrary state. In the assembled policy every rule of the exact
  map has an ordinal strictly less than that of every rule of the wildcard map exactly
  when one of the two maps is empty or the exact map has at most as many rules as
  \<^verbatim>\<open>r.m\<close> has records.
\<close>

lemma makeRoutePolicy_ordinals_iff:
  assumes "Partitions (BigIP c) \<noteq> []"
  shows "\<exists>plcy s'. makeRoutePolicy c s name = Inr (plcy, s')
    \<and> ((\<forall>i<length (r_r s). \<forall>j<length (r_wildcards s).
           Ordinal (Rules plcy ! i) < Ordinal (Rules plcy ! (length (r_r s) + j)))
        = (r_r s = [] \<or> r_wildcards s = [] \<or> length (r_r s) \<le> length (r_m s)))"
proof -
  obtain plcy s' where run: "makeRoutePolicy c s name = Inr (plcy, s')"
    and rules: "Rules plcy = map snd (sortRules (r_r s) 0)
                    @ map snd (sortRules (r_wildcards s) (int (length (r_m s))))"
    using makeRoutePolicy_Rules [OF assms] by blast
  let ?E = "map snd (sortRules (r_r s) 0)"
  let ?W = "map snd (sortRules (r_wildcards s) (int (length (r_m s))))"
  have lenE: "length ?E = length (r_r s)" and lenW: "length ?W = length (r_wildcards s)"
    by (simp_all add: sortRules_length)
  have ordE: "Ordinal (Rules plcy ! i) = int i" if "i < length (r_r s)" for i
  proof -
    have "Ordinal (Rules plcy ! i) = map Ordinal ?E ! i"
      using that lenE by (simp add: rules nth_append)
    also have "\<dots> = int i"
      using that by (simp add: sortRules_Ordinal del: map_map)
    finally show ?thesis .
  qed
  have ordW: "Ordinal (Rules plcy ! (length (r_r s) + j)) = int (length (r_m s) + j)"
    if "j < length (r_wildcards s)" for j
  proof -
    have "Ordinal (Rules plcy ! (length (r_r s) + j)) = map Ordinal ?W ! j"
      using that lenE lenW by (simp add: rules nth_append)
    also have "\<dots> = int (length (r_m s) + j)"
      using that by (simp add: sortRules_Ordinal del: map_map)
    finally show ?thesis .
  qed
  have "(\<forall>i<length (r_r s). \<forall>j<length (r_wildcards s).
           Ordinal (Rules plcy ! i) < Ordinal (Rules plcy ! (length (r_r s) + j)))
      = (\<forall>i<length (r_r s). \<forall>j<length (r_wildcards s). i < length (r_m s) + j)"
    using ordE ordW by (simp del: of_nat_add)
  also have "\<dots> = (r_r s = [] \<or> r_wildcards s = [] \<or> length (r_r s) \<le> length (r_m s))"
  proof
    assume all: "\<forall>i<length (r_r s). \<forall>j<length (r_wildcards s). i < length (r_m s) + j"
    show "r_r s = [] \<or> r_wildcards s = [] \<or> length (r_r s) \<le> length (r_m s)"
    proof (cases "r_r s = [] \<or> r_wildcards s = []")
      case True
      then show ?thesis by blast
    next
      case False
      then have "length (r_r s) - 1 < length (r_r s)" and "0 < length (r_wildcards s)"
        by simp_all
      with all have "length (r_r s) - 1 < length (r_m s) + 0"
        by blast
      moreover have "0 < length (r_r s)"
        using False by simp
      ultimately show ?thesis by linarith
    qed
  next
    assume "r_r s = [] \<or> r_wildcards s = [] \<or> length (r_r s) \<le> length (r_m s)"
    then show "\<forall>i<length (r_r s). \<forall>j<length (r_wildcards s). i < length (r_m s) + j"
      by auto
  qed
  finally show ?thesis
    using run by blast
qed

section \<open>Adding an endpoint: no panic with a partition\<close>

lemma makeRouteRule_returns:
  "Partitions (BigIP c) \<noteq> [] \<Longrightarrow> \<exists>res. makeRouteRule x c p = Inr res"
  by (cases "Partitions (BigIP c)")
    (auto simp: makeRouteRule_def index0_def Let_def split: sum.splits)

lemma makePool_returns:
  "Partitions (BigIP c) \<noteq> [] \<Longrightarrow> \<exists>pool. makePool c name uri addrs = Inr pool"
  by (cases "Partitions (BigIP c)") (auto simp: makePool_def index0_def)

lemma processPoolAdd_returns:
  assumes "Partitions (BigIP c) \<noteq> []"
  shows "\<exists>s1 ret. processPoolAdd x c s p = Inr (s1, ret)"
proof -
  obtain res where "makeRouteRule x c p = Inr res"
    using makeRouteRule_returns [OF assms] by blast
  moreover obtain pool where "makePool c (Name p) (URI p) [Endpoint p] = Inr pool"
    using makePool_returns [OF assms] by blast
  ultimately show ?thesis
    by (cases res) (auto simp: processPoolAdd_def Let_def split: option.splits)
qed

section \<open>Adding an endpoint twice\<close>

lemma endpoint_found_iff: "endpoint_found es endpoint = (endpoint \<in> set es)"
  by (induction es) auto

lemma get_set_PoolMemberAddrs: "get_PoolMemberAddrs (set_PoolMemberAddrs addrs pool) = addrs"
  by (simp add: set_PoolMemberAddrs_def get_PoolMemberAddrs_def)

lemma makePool_addrs: "makePool c name uri addrs = Inr pool \<Longrightarrow> get_PoolMemberAddrs pool = addrs"
  by (auto simp: makePool_def get_PoolMemberAddrs_def split: sum.splits)

lemma add_is_noop_processPoolAdd:
  "add_is_noop x c (r_m s) p \<Longrightarrow> processPoolAdd x c s p = Inr (s, False)"
  by (auto simp: add_is_noop_def processPoolAdd_def endpoint_found_iff
      split: option.splits sum.splits)

lemma processPoolAdd_add_is_noop:
  "processPoolAdd x c s p = Inr (s1, ret) \<Longrightarrow> add_is_noop x c (r_m s1) p"
  by (auto simp: add_is_noop_def processPoolAdd_def endpoint_found_iff Let_def
      update_conv' get_set_PoolMemberAddrs dest: makePool_addrs
      split: option.splits sum.splits if_splits)

lemma map_of_decorate:
  "map_of (decorate name plcs prfls rm) k =
     (if k = name
      then map_option (\<lambda>vs. vs\<lparr>Item := (Item vs)\<lparr>Frontend :=
             (Frontend (Item vs))\<lparr>fe_Policies := plcs, fe_Profiles := prfls\<rparr>\<rparr>\<rparr>) (map_of rm k)
      else map_of rm k)"
  by (auto simp: decorate_def update_conv' split: option.splits)

lemma add_is_noop_decorate:
  "add_is_noop x c (decorate name plcs prfls rm) p = add_is_noop x c rm p"
  by (auto simp: add_is_noop_def map_of_decorate get_PoolMemberAddrs_def split: option.splits)

lemma makeRoutePolicy_r_m: "makeRoutePolicy c s n = Inr (plcy, s') \<Longrightarrow> r_m s' = r_m s"
  by (auto simp: makeRoutePolicy_def Let_def split: sum.splits)

lemma drain_add_is_noop:
  "drain x c s = Inr (s', out) \<Longrightarrow> add_is_noop x c (r_m s') p = add_is_noop x c (r_m s) p"
  by (auto simp: drain_def Let_def add_is_noop_decorate dest!: makeRoutePolicy_r_m
      split: sum.splits prod.splits option.splits if_splits)

lemma process_add_is_noop:
  assumes "process x c (Some (workItem add (pool_work p))) l s = Inr (s1, out, continue)"
  shows "add_is_noop x c (r_m s1) p"
proof -
  obtain s0 ret where add: "processPoolAdd x c s p = Inr (s0, ret)"
    using assms by (auto simp: process_def processPool_def split: sum.splits)
  have noop: "add_is_noop x c (r_m s0) p"
    using add by (rule processPoolAdd_add_is_noop)
  let ?s2 = "if False = r_drainUpdate s0 then s0\<lparr>r_drainUpdate := ret\<rparr> else s0"
  have m2: "r_m ?s2 = r_m s0" by simp
  show ?thesis
  proof (cases "True = r_drainUpdate ?s2 \<and> 0 = l")
    case True
    then obtain out' where "drain x c ?s2 = Inr (s1, out')"
      using assms add by (auto simp: process_def processPool_def Let_def split: sum.splits)
    then have "add_is_noop x c (r_m s1) p = add_is_noop x c (r_m ?s2) p"
      by (rule drain_add_is_noop)
    with noop m2 show ?thesis by simp
  next
    case False
    then have "s1 = ?s2"
      using assms add by (auto simp: process_def processPool_def Let_def split: sum.splits)
    with noop m2 show ?thesis by simp
  qed
qed

lemma processPoolAdd_times_noop:
  "add_is_noop x c (r_m s) p \<Longrightarrow> processPoolAdd_times x c p n s = Inr s"
  by (induction n) (auto simp: add_is_noop_processPoolAdd)

text \<open>
  Claim C7. Let \<^verbatim>\<open>processPoolAdd\<close> return on the pool data \<open>p\<close> in the state \<open>s\<close>, with
  the state \<open>s1\<close>. Then \<open>N = n + 1\<close> applications in a row end in \<open>s1\<close> as well, and
  an application in \<open>s1\<close> leaves \<open>s1\<close> as it is (no endpoint is added a second time) and
  reports no change. For the worker: after \<^verbatim>\<open>process\<close> has handled the add item once,
  \<^verbatim>\<open>processPoolAdd\<close> on the same item changes nothing and reports no change, and when
  \<^verbatim>\<open>drainUpdate\<close> is clear, \<^verbatim>\<open>process\<close> on the same item leaves the whole state as it
  is, flag included, and writes no document.
\<close>

theorem processPoolAdd_idempotent:
  assumes "processPoolAdd x c s p = Inr (s1, ret)"
  shows "processPoolAdd_times x c p (Suc n) s = Inr s1
    \<and> processPoolAdd x c s1 p = Inr (s1, False)
    \<and> (\<forall>l t out continue l'.
          process x c (Some (workItem add (pool_work p))) l s = Inr (t, out, continue)
          \<longrightarrow> processPoolAdd x c t p = Inr (t, False)
            \<and> (\<not> r_drainUpdate t
                 \<longrightarrow> process x c (Some (workItem add (pool_work p))) l' t
                       = Inr (t, write_not_ready, True)))"
proof -
  have noop: "add_is_noop x c (r_m s1) p"
    using assms by (rule processPoolAdd_add_is_noop)
  have "processPoolAdd_times x c p (Suc n) s = Inr s1"
    using assms processPoolAdd_times_noop [OF noop] by simp
  moreover have "processPoolAdd x c s1 p = Inr (s1, False)"
    using noop by (rule add_is_noop_processPoolAdd)
  moreover have "processPoolAdd x c t p = Inr (t, False)
      \<and> (\<not> r_drainUpdate t
           \<longrightarrow> process x c (Some (workItem add (pool_work p))) l' t
                 = Inr (t, write_not_ready, True))"
    if "process x c (Some (workItem add (pool_work p))) l s = Inr (t, out, continue)"
    for l t out continue l'
  proof -
    have "add_is_noop x c (r_m t) p"
      using that by (rule process_add_is_noop)
    then have again: "processPoolAdd x c t p = Inr (t, False)"
      by (rule add_is_noop_processPoolAdd)
    then show ?thesis
      by (auto simp: process_def processPool_def Let_def)
  qed
  ultimately show ?thesis by blast
qed


lemma ax_pool_intake:
  "UpdatePoolEndpoints test_extern ''a.x/'' ''10.0.0.3:1'' = Inr (workItem add (pool_work ax_pool))"
  by code_simp

theorem processPoolAdd_idempotent_witness:
  "processPoolAdd test_extern test_Config empty_router ax_pool
     = Inr (ax_router\<lparr>r_drainUpdate := False\<rparr>, True)
   \<and> processPoolAdd_times test_extern test_Config ax_pool 3 empty_router = Inr ax_router
   \<and> processPoolAdd test_extern test_Config ax_router ax_pool = Inr (ax_router, False)
   \<and> get_PoolMemberAddrs (the (map_of (r_m ax_router) ''a-8a279953b8c1e12b'')) = [''10.0.0.3:1'']
   \<and> process test_extern test_Config (Some (workItem add (pool_work ax_pool))) 0 empty_router
       = Inr (ax_router, wrote_config ''{}'', True)
   \<and> process test_extern test_Config (Some (workItem add (pool_work ax_pool))) 0 ax_router
       = Inr (ax_router, write_not_ready, True)"
proof -
  have first: "processPoolAdd test_extern test_Config empty_router ax_pool
     = Inr (ax_router\<lparr>r_drainUpdate := False\<rparr>, True)"
    by code_simp
  have same: "ax_router\<lparr>r_drainUpdate := False\<rparr> = ax_router"
    by code_simp
  have run: "process test_extern test_Config (Some (workItem add (pool_work ax_pool))) 0 empty_router
       = Inr (ax_router, wrote_config ''{}'', True)"
    by code_simp
  have clear: "\<not> r_drainUpdate ax_router"
    by code_simp
  have addrs: "get_PoolMemberAddrs (the (map_of (r_m ax_router) ''a-8a279953b8c1e12b'')) = [''10.0.0.3:1'']"
    by code_simp
  note idem = processPoolAdd_idempotent [OF first, of 2]
  have "processPoolAdd_times test_extern test_Config ax_pool 3 empty_router = Inr ax_router"
    using idem same by (simp add: eval_nat_numeral)
  moreover have "processPoolAdd test_extern test_Config ax_router ax_pool = Inr (ax_router, False)"
    using idem same by simp
  moreover have "process test_extern test_Config (Some (workItem add (pool_work ax_pool))) 0 ax_router
       = Inr (ax_router, write_not_ready, True)"
    using idem run clear by blast
  ultimately show ?thesis
    using first run addrs by simp
qed

section \<open>Update followed by remove\<close>

lemma update_absent: "k \<notin> fst ` set al \<Longrightarrow> AList.update k v al = al @ [(k, v)]"
  by (induction al) auto

lemma delete_appended: "k \<notin> fst ` set al \<Longrightarrow> AList.delete k (al @ [(k, v)]) = al"
  by (induction al) auto

lemma endpoint_removed_single: "endpoint_removed [endpoint] endpoint = []"
  by simp

text \<open>
  For a URI that is no wildcard both intake functions hand the same pool data to the
  worker, and the remove item undoes the add item that created the pool: the pool
  record and the rule are deleted, and the three maps are as they were.
\<close>

lemma exact_intake_same_poolData:
  assumes "\<not> strings_HasPrefix uri ''*.''"
    and "UpdatePoolEndpoints x uri endpoint = Inr (workItem add (pool_work p))"
  shows "RemovePoolEndpoints x uri endpoint = Inr (workItem remove (pool_work p))"
  using assms
  by (auto simp: UpdatePoolEndpoints_def RemovePoolEndpoints_def split: sum.splits)

lemma created_pool_removed:
  assumes absent: "map_of (r_m s) (Name p) = None"
    and fresh: "URI p \<notin> fst ` set (if Wildcard p then r_wildcards s else r_r s)"
    and run: "processPoolAdd x c s p = Inr (s1, True)"
  shows "processPoolRemove s1 p = (s, True)"
proof -
  have name: "Name p \<notin> fst ` set (r_m s)"
    using absent by (simp add: map_of_eq_None_iff)
  obtain rule pool where pool: "makePool c (Name p) (URI p) [Endpoint p] = Inr pool"
    and s1: "s1 = (if Wildcard p
                   then s\<lparr>r_wildcards := r_wildcards s @ [(URI p, rule)], r_m := r_m s @ [(Name p, pool)]\<rparr>
                   else s\<lparr>r_r := r_r s @ [(URI p, rule)], r_m := r_m s @ [(Name p, pool)]\<rparr>)"
    using run absent fresh name
    by (auto simp: processPoolAdd_def Let_def update_absent split: sum.splits if_splits)
  have addrs: "get_PoolMemberAddrs pool = [Endpoint p]"
    using pool by (auto simp: makePool_def get_PoolMemberAddrs_def split: sum.splits)
  have look: "map_of (r_m s1) (Name p) = Some pool"
    using s1 absent by (auto simp: map_add_def)
  have del: "AList.delete (Name p) (AList.update (Name p) v (r_m s @ [(Name p, pool)])) = r_m s" for v
    using name by (simp add: delete_update_same delete_appended)
  show ?thesis
  proof (cases "Wildcard p")
    case True
    then show ?thesis
      using s1 look addrs del fresh
      by (simp add: processPoolRemove_def Let_def delete_appended)
  next
    case False
    then show ?thesis
      using s1 look addrs del fresh
      by (simp add: processPoolRemove_def Let_def delete_appended)
  qed
qed

text \<open>
  Claim C1 fails on the code for a wildcard URI. \<^verbatim>\<open>UpdatePoolEndpoints\<close> files the rule
  under the stripped URI; \<^verbatim>\<open>RemovePoolEndpoints\<close> strips the URI into \<^verbatim>\<open>u\<close> as well but
  passes the unstripped \<^verbatim>\<open>uri\<close> on as \<^verbatim>\<open>URI\<close>, so that \<^verbatim>\<open>processPoolRemove\<close> deletes a key
  that the wildcard map does not have. From the empty router, the update and the remove
  of \<^verbatim>\<open>*.tenant.example.com\<close> leave the wildcard rule behind.
\<close>

theorem wildcard_update_remove_keeps_rule:
  "UpdatePoolEndpoints test_extern ''*.tenant.example.com'' ''10.0.0.2:80''
     = Inr (workItem add (pool_work
         \<lparr>Name = ''tenant.example.com'', URI = ''tenant.example.com'',
          Endpoint = ''10.0.0.2:80'', Wildcard = True\<rparr>))
   \<and> RemovePoolEndpoints test_extern ''*.tenant.example.com'' ''10.0.0.2:80''
     = Inr (workItem remove (pool_work
         \<lparr>Name = ''tenant.example.com'', URI = ''*.tenant.example.com'',
          Endpoint = ''10.0.0.2:80'', Wildcard = True\<rparr>))
   \<and> (case serve test_extern test_Config
             [UpdatePool ''*.tenant.example.com'' ''10.0.0.2:80'',
              RemovePool ''*.tenant.example.com'' ''10.0.0.2:80''] empty_router of
        Inl pn \<Rightarrow> False
      | Inr s \<Rightarrow> r_m s = [] \<and> r_r s = []
                 \<and> map fst (r_wildcards s) = [''tenant.example.com''])"
  by code_simp

section \<open>The keys of the two rule maps\<close>

lemma keys_of_update: "keys_of (AList.update k v al) = insert k (keys_of al)"
  by (simp add: keys_of_def dom_update)

lemma keys_of_delete: "keys_of (AList.delete k al) \<subseteq> keys_of al"
  by (simp add: keys_of_def dom_delete_subset)

lemma keys_of_map_fst: "map fst al = map fst al' \<Longrightarrow> keys_of al = keys_of al'"
  by (metis keys_of_def list.set_map)

lemma written_through_keys: "map fst (written_through rm rls) = map fst rm"
  by (induction rm) (auto simp: written_through_def)

lemma makeRoutePolicy_keys:
  assumes "makeRoutePolicy c s n = Inr (plcy, s')"
  shows "map fst (r_r s') = map fst (r_r s)" and "map fst (r_wildcards s') = map fst (r_wildcards s)"
  using assms
  by (auto simp: makeRoutePolicy_def Let_def written_through_keys split: sum.splits)

lemma drain_keys:
  assumes "drain x c s = Inr (s', out)"
  shows "map fst (r_r s') = map fst (r_r s)" and "map fst (r_wildcards s') = map fst (r_wildcards s)"
proof -
  obtain plcy s1 where p: "makeRoutePolicy c (s\<lparr>r_drainUpdate := False\<rparr>) CFRoutingPolicyName = Inr (plcy, s1)"
    and rr: "r_r s' = r_r s1" and ww: "r_wildcards s' = r_wildcards s1"
    using assms
    by (auto simp: drain_def Let_def split: sum.splits prod.splits option.splits if_splits)
  show "map fst (r_r s') = map fst (r_r s)"
    using makeRoutePolicy_keys(1) [OF p] rr by simp
  show "map fst (r_wildcards s') = map fst (r_wildcards s)"
    using makeRoutePolicy_keys(2) [OF p] ww by simp
qed

lemma processPoolAdd_keys:
  assumes "processPoolAdd x c s p = Inr (s', ret)"
  shows "keys_of (r_r s') \<subseteq> keys_of (r_r s) \<union> (if Wildcard p then {} else {URI p})"
    and "keys_of (r_wildcards s') \<subseteq> keys_of (r_wildcards s) \<union> (if Wildcard p then {URI p} else {})"
proof -
  from assms consider
      (same) "r_r s' = r_r s" "r_wildcards s' = r_wildcards s"
    | (exact) rule where "\<not> Wildcard p" "r_r s' = AList.update (URI p) rule (r_r s)"
        "r_wildcards s' = r_wildcards s"
    | (wildcard) rule where "Wildcard p" "r_r s' = r_r s"
        "r_wildcards s' = AList.update (URI p) rule (r_wildcards s)"
    by (auto simp: processPoolAdd_def Let_def split: option.splits sum.splits if_splits)
  then show "keys_of (r_r s') \<subseteq> keys_of (r_r s) \<union> (if Wildcard p then {} else {URI p})"
    by cases (auto simp: keys_of_update)
  from \<open>processPoolAdd x c s p = Inr (s', ret)\<close> consider
      (same) "r_r s' = r_r s" "r_wildcards s' = r_wildcards s"
    | (exact) rule where "\<not> Wildcard p" "r_r s' = AList.update (URI p) rule (r_r s)"
        "r_wildcards s' = r_wildcards s"
    | (wildcard) rule where "Wildcard p" "r_r s' = r_r s"
        "r_wildcards s' = AList.update (URI p) rule (r_wildcards s)"
    by (auto simp: processPoolAdd_def Let_def split: option.splits sum.splits if_splits)
  then show "keys_of (r_wildcards s') \<subseteq> keys_of (r_wildcards s) \<union> (if Wildcard p then {URI p} else {})"
    by cases (auto simp: keys_of_update)
qed

lemma processPoolRemove_keys:
  assumes "processPoolRemove s p = (s', ret)"
  shows "keys_of (r_r s') \<subseteq> keys_of (r_r s)"
    and "keys_of (r_wildcards s') \<subseteq> keys_of (r_wildcards s)"
  using assms keys_of_delete [of "URI p" "r_r s"] keys_of_delete [of "URI p" "r_wildcards s"]
  by (auto simp: processPoolRemove_def Let_def split: option.splits if_splits)

lemma processVirtual_keys:
  assumes "processVirtual c s op v = Inr (s', ret, err)"
  shows "r_r s' = r_r s" and "r_wildcards s' = r_wildcards s"
  using assms
  by (auto simp: processVirtual_def processVirtualAdd_def processVirtualRemove_def
      split: sum.splits if_splits)

lemma process_keys:
  assumes "process x c (Some it) l s = Inr (s', out, continue)"
  shows "keys_of (r_r s') \<subseteq> keys_of (r_r s) \<union> exact_key it
       \<and> keys_of (r_wildcards s') \<subseteq> keys_of (r_wildcards s) \<union> wildcard_key it"
proof (cases it)
  case not_a_workItem
  with assms show ?thesis by (simp add: process_def)
next
  case (workItem op work)
  obtain s1 tryUpdate err where
    work: "(case work of
              pool_work p \<Rightarrow> processPool x c s op p
            | virtual_work v \<Rightarrow> processVirtual c s op v
            | other_work \<Rightarrow> Inr (s, False, None)) = Inr (s1, tryUpdate, err)"
    using assms workItem by (auto simp: process_def split: sum.splits)
  have one: "keys_of (r_r s1) \<subseteq> keys_of (r_r s) \<union> exact_key it
       \<and> keys_of (r_wildcards s1) \<subseteq> keys_of (r_wildcards s) \<union> wildcard_key it"
  proof (cases work)
    case (pool_work p)
    show ?thesis
    proof (cases "op = add")
      case True
      then obtain ret where "processPoolAdd x c s p = Inr (s1, ret)"
        using work pool_work by (auto simp: processPool_def split: sum.splits)
      from processPoolAdd_keys [OF this] show ?thesis
        using workItem pool_work True by (auto split: if_splits)
    next
      case False
      show ?thesis
      proof (cases "op = remove")
        case True
        then obtain ret where "processPoolRemove s p = (s1, ret)"
          using work pool_work by (auto simp: processPool_def split: prod.splits)
        from processPoolRemove_keys [OF this] show ?thesis
          by blast
      next
        case other: False
        then have "s1 = s"
          using work pool_work False by (auto simp: processPool_def)
        then show ?thesis by blast
      qed
    qed
  next
    case (virtual_work v)
    then have "processVirtual c s op v = Inr (s1, tryUpdate, err)"
      using work by simp
    from processVirtual_keys [OF this] show ?thesis by simp
  next
    case other_work
    then have "s1 = s" using work by simp
    then show ?thesis by blast
  qed
  let ?s2 = "if False = r_drainUpdate s1 then s1\<lparr>r_drainUpdate := tryUpdate\<rparr> else s1"
  have two: "r_r ?s2 = r_r s1 \<and> r_wildcards ?s2 = r_wildcards s1"
    by simp
  have "map fst (r_r s') = map fst (r_r ?s2) \<and> map fst (r_wildcards s') = map fst (r_wildcards ?s2)"
  proof (cases "err = None \<and> True = r_drainUpdate ?s2 \<and> 0 = l")
    case True
    then obtain out' where "drain x c ?s2 = Inr (s', out')"
      using assms workItem work by (auto simp: process_def Let_def split: sum.splits)
    from drain_keys [OF this] show ?thesis by blast
  next
    case False
    then have "s' = ?s2"
      using assms workItem work
      by (auto simp: process_def Let_def split: sum.splits option.splits)
    then show ?thesis by simp
  qed
  then have "keys_of (r_r s') = keys_of (r_r s1) \<and> keys_of (r_wildcards s') = keys_of (r_wildcards s1)"
    using two by (metis keys_of_map_fst)
  with one show ?thesis by simp
qed

lemma intake_exact_key:
  "intake x cl = Inr it \<Longrightarrow>
     exact_key it \<subseteq> {uri. \<exists>e. cl = UpdatePool uri e \<and> \<not> strings_HasPrefix uri ''*.''}"
  by (cases cl)
    (auto simp: UpdatePoolEndpoints_def RemovePoolEndpoints_def UpdateVirtualServer_def
      RemoveVirtualServer_def Let_def split: sum.splits if_splits)

lemma strip_wildcard:
  "strings_HasPrefix uri ''*.'' \<Longrightarrow> uri = CHR ''*'' # CHR ''.'' # strings_TrimPrefix uri ''*.''"
  by (auto simp: strings_HasPrefix_def strings_TrimPrefix_def prefix_def)

lemma intake_wildcard_key:
  "intake x cl = Inr it \<Longrightarrow> wildcard_key it \<subseteq> {u. \<exists>e. cl = UpdatePool (''*.'' @ u) e}"
  by (cases cl)
    (auto simp: UpdatePoolEndpoints_def RemovePoolEndpoints_def UpdateVirtualServer_def
      RemoveVirtualServer_def Let_def split: sum.splits if_splits intro: strip_wildcard)

lemma serve_at_keys:
  "serve_at x c calls s0 = Inr s \<Longrightarrow>
     keys_of (r_r s) \<subseteq> keys_of (r_r s0)
        \<union> {uri. \<exists>e l. (UpdatePool uri e, l) \<in> set calls \<and> \<not> strings_HasPrefix uri ''*.''}
     \<and> keys_of (r_wildcards s) \<subseteq> keys_of (r_wildcards s0)
        \<union> {u. \<exists>e l. (UpdatePool (''*.'' @ u) e, l) \<in> set calls}"
proof (induction calls arbitrary: s0)
  case Nil
  then show ?case by simp
next
  case (Cons cll calls)
  obtain cl l where cll: "cll = (cl, l)" by (cases cll)
  obtain it s1 out continue where it: "intake x cl = Inr it"
    and step: "process x c (Some it) l s0 = Inr (s1, out, continue)"
    and rest: "serve_at x c calls s1 = Inr s"
    using Cons.prems cll by (auto split: sum.splits if_splits)
  note a = process_keys [OF step] intake_exact_key [OF it] intake_wildcard_key [OF it]
  note b = Cons.IH [OF rest]
  have e: "{uri. \<exists>e. cl = UpdatePool uri e \<and> \<not> strings_HasPrefix uri ''*.''}
        \<union> {uri. \<exists>e l. (UpdatePool uri e, l) \<in> set calls \<and> \<not> strings_HasPrefix uri ''*.''}
      \<subseteq> {uri. \<exists>e l. (UpdatePool uri e, l) \<in> set (cll # calls) \<and> \<not> strings_HasPrefix uri ''*.''}"
    using cll by fastforce
  have w: "{u. \<exists>e. cl = UpdatePool (''*.'' @ u) e}
        \<union> {u. \<exists>e l. (UpdatePool (''*.'' @ u) e, l) \<in> set calls}
      \<subseteq> {u. \<exists>e l. (UpdatePool (''*.'' @ u) e, l) \<in> set (cll # calls)}"
    using cll by fastforce
  have "keys_of (r_r s) \<subseteq> keys_of (r_r s0)
        \<union> {uri. \<exists>e l. (UpdatePool uri e, l) \<in> set (cll # calls) \<and> \<not> strings_HasPrefix uri ''*.''}"
    using a b e by blast
  moreover have "keys_of (r_wildcards s) \<subseteq> keys_of (r_wildcards s0)
        \<union> {u. \<exists>e l. (UpdatePool (''*.'' @ u) e, l) \<in> set (cll # calls)}"
    using a b w by blast
  ultimately show ?case by blast
qed


text \<open>
  Claim C4, as stated, fails: the wildcard call \<^verbatim>\<open>*.x.com\<close> files its rule under the
  stripped URI \<^verbatim>\<open>x.com\<close> in the wildcard map, and the exact call \<^verbatim>\<open>x.com\<close> files its
  rule under the same key in the exact map.
\<close>

theorem rule_maps_disjoint_counterexample:
  "(case serve test_extern test_Config
          [UpdatePool ''*.x.com'' ''10.0.0.1:80'', UpdatePool ''x.com'' ''10.0.0.1:80'']
          empty_router of
      Inl pn \<Rightarrow> False
    | Inr s \<Rightarrow> map fst (r_r s) = [''x.com''] \<and> map fst (r_wildcards s) = [''x.com''])"
  by code_simp

text \<open>
  Claim C4, amended. After every run of the worker from the empty router, for every
  sequence of calls of the intake functions and whatever the queue lengths, each key
  of the exact map is a URI that is no wildcard and that some call of
  \<^verbatim>\<open>UpdatePoolEndpoints\<close> has passed, and each key \<open>u\<close> of the wildcard map is the stripped
  form of a wildcard URI \<^verbatim>\<open>*.u\<close> that some call of \<^verbatim>\<open>UpdatePoolEndpoints\<close> has passed.
  So a string is a key of both maps only if it has been added in both forms, as \<open>u\<close>
  and as \<^verbatim>\<open>*.u\<close>; where no URI has been added in both forms the two key sets are
  disjoint.
\<close>

theorem rule_maps_keys:
  assumes "serve_at x c calls empty_router = Inr s"
  shows "keys_of (r_r s)
      \<subseteq> {uri. \<exists>e l. (UpdatePool uri e, l) \<in> set calls \<and> \<not> strings_HasPrefix uri ''*.''}
    \<and> keys_of (r_wildcards s) \<subseteq> {u. \<exists>e l. (UpdatePool (''*.'' @ u) e, l) \<in> set calls}
    \<and> keys_of (r_r s) \<inter> keys_of (r_wildcards s)
      \<subseteq> {u. (\<exists>e l. (UpdatePool u e, l) \<in> set calls)
             \<and> (\<exists>e l. (UpdatePool (''*.'' @ u) e, l) \<in> set calls)}
    \<and> ((\<forall>u e l e' l'. (UpdatePool u e, l) \<in> set calls
            \<longrightarrow> (UpdatePool (''*.'' @ u) e', l') \<notin> set calls)
        \<longrightarrow> keys_of (r_r s) \<inter> keys_of (r_wildcards s) = {})"
proof -
  have "keys_of (r_r empty_router) = {}" and "keys_of (r_wildcards empty_router) = {}"
    by (simp_all add: empty_router_def keys_of_def)
  with serve_at_keys [OF assms]
  have r: "keys_of (r_r s)
      \<subseteq> {uri. \<exists>e l. (UpdatePool uri e, l) \<in> set calls \<and> \<not> strings_HasPrefix uri ''*.''}"
    and w: "keys_of (r_wildcards s) \<subseteq> {u. \<exists>e l. (UpdatePool (''*.'' @ u) e, l) \<in> set calls}"
    by simp_all
  have both: "keys_of (r_r s) \<inter> keys_of (r_wildcards s)
      \<subseteq> {u. (\<exists>e l. (UpdatePool u e, l) \<in> set calls)
             \<and> (\<exists>e l. (UpdatePool (''*.'' @ u) e, l) \<in> set calls)}"
    using r w by blast
  have "keys_of (r_r s) \<inter> keys_of (r_wildcards s) = {}"
    if "\<forall>u e l e' l'. (UpdatePool u e, l) \<in> set calls
            \<longrightarrow> (UpdatePool (''*.'' @ u) e', l') \<notin> set calls"
    using both that by blast
  with r w both show ?thesis by blast
qed

theorem rule_maps_keys_witness:
  "serve_at test_extern test_Config
      [(UpdatePool ''b.x'' ''10.0.0.1:80'', 0), (UpdatePool ''*.x'' ''10.0.0.1:80'', 0),
       (UpdatePool ''a.x'' ''10.0.0.1:80'', 0)] empty_router = Inr scenario5_router
   \<and> keys_of (r_r scenario5_router) \<subseteq> {''b.x'', ''a.x''}
   \<and> keys_of (r_wildcards scenario5_router) \<subseteq> {''x''}
   \<and> keys_of (r_r scenario5_router) \<inter> keys_of (r_wildcards scenario5_router) = {}"
proof -
  let ?calls = "[(UpdatePool ''b.x'' ''10.0.0.1:80'', 0::nat), (UpdatePool ''*.x'' ''10.0.0.1:80'', 0),
       (UpdatePool ''a.x'' ''10.0.0.1:80'', 0)]"
  have run: "serve_at test_extern test_Config ?calls empty_router = Inr scenario5_router"
    by code_simp
  have once: "\<forall>u e l e' l'. (UpdatePool u e, l) \<in> set ?calls
            \<longrightarrow> (UpdatePool (''*.'' @ u) e', l') \<notin> set ?calls"
    by auto
  have e: "{uri. \<exists>e l. (UpdatePool uri e, l) \<in> set ?calls \<and> \<not> strings_HasPrefix uri ''*.''}
      \<subseteq> {''b.x'', ''a.x''}"
    by (auto simp: strings_HasPrefix_def)
  have w: "{u. \<exists>e l. (UpdatePool (''*.'' @ u) e, l) \<in> set ?calls} \<subseteq> {''x''}"
    by auto
  show ?thesis
    using rule_maps_keys [OF run] once e w run by blast
qed

section \<open>The maps stay well formed\<close>

lemma decorate_keys: "map fst (decorate name plcs prfls rm) = map fst rm"
  by (auto simp: decorate_def update_keys map_of_eq_None_iff split: option.splits
      dest: map_of_SomeD intro: rev_image_eqI)

lemma makeRoutePolicy_m: "makeRoutePolicy c s n = Inr (plcy, s') \<Longrightarrow> r_m s' = r_m s"
  by (auto simp: makeRoutePolicy_def Let_def split: sum.splits)

lemma drain_m_keys:
  assumes "drain x c s = Inr (s', out)"
  shows "map fst (r_m s') = map fst (r_m s)"
proof -
  obtain plcy s1 plcs where p: "makeRoutePolicy c (s\<lparr>r_drainUpdate := False\<rparr>) CFRoutingPolicyName = Inr (plcy, s1)"
    and m: "r_m s' = decorate HTTPSRouterName plcs (generateNameList (Profiles (BigIP c)))
               (decorate HTTPRouterName plcs (generateNameList (Profiles (BigIP c))) (r_m s1))"
    using assms
    by (auto simp: drain_def Let_def split: sum.splits prod.splits option.splits if_splits)
  show ?thesis
    using makeRoutePolicy_m [OF p] m by (simp add: decorate_keys)
qed

lemma drain_distinct_keys:
  assumes "drain x c s = Inr (s', out)" and "distinct_keys s"
  shows "distinct_keys s'"
  using assms drain_keys [OF assms(1)] drain_m_keys [OF assms(1)]
  by (simp add: distinct_keys_def)

lemma processPoolAdd_distinct_keys:
  assumes "processPoolAdd x c s p = Inr (s', ret)" and "distinct_keys s"
  shows "distinct_keys s'"
  using assms
  by (auto simp: processPoolAdd_def distinct_keys_def Let_def distinct_update
      split: option.splits sum.splits if_splits)

lemma processPoolRemove_distinct_keys:
  assumes "processPoolRemove s p = (s', ret)" and "distinct_keys s"
  shows "distinct_keys s'"
  using assms
  by (auto simp: processPoolRemove_def distinct_keys_def Let_def distinct_update distinct_delete
      split: option.splits if_splits)

lemma processVirtual_distinct_keys:
  assumes "processVirtual c s op v = Inr (s', ret, err)" and "distinct_keys s"
  shows "distinct_keys s'"
  using assms
  by (auto simp: processVirtual_def processVirtualAdd_def processVirtualRemove_def
      distinct_keys_def distinct_update distinct_delete split: sum.splits if_splits)

lemma process_distinct_keys:
  assumes run: "process x c got l s = Inr (s', out, continue)" and wf: "distinct_keys s"
  shows "distinct_keys s'"
proof (cases got)
  case None
  with run wf show ?thesis by (simp add: process_def)
next
  case (Some it)
  show ?thesis
  proof (cases it)
    case not_a_workItem
    with run wf Some show ?thesis by (simp add: process_def)
  next
    case (workItem op work)
    obtain s1 tryUpdate err where
      work: "(case work of
                pool_work p \<Rightarrow> processPool x c s op p
              | virtual_work v \<Rightarrow> processVirtual c s op v
              | other_work \<Rightarrow> Inr (s, False, None)) = Inr (s1, tryUpdate, err)"
      using run Some workItem by (auto simp: process_def split: sum.splits)
    have one: "distinct_keys s1"
    proof (cases work)
      case (pool_work p)
      then show ?thesis
        using work wf processPoolAdd_distinct_keys [of x c s p]
          processPoolRemove_distinct_keys [of s p]
        by (auto simp: processPool_def split: sum.splits prod.splits if_splits)
    next
      case (virtual_work v)
      then show ?thesis
        using work wf processVirtual_distinct_keys [of c s op v] by simp
    next
      case other_work
      then show ?thesis using work wf by simp
    qed
    let ?s2 = "if False = r_drainUpdate s1 then s1\<lparr>r_drainUpdate := tryUpdate\<rparr> else s1"
    have two: "distinct_keys ?s2"
      using one by (simp add: distinct_keys_def)
    show ?thesis
    proof (cases "err = None \<and> True = r_drainUpdate ?s2 \<and> 0 = l")
      case True
      then obtain out' where "drain x c ?s2 = Inr (s', out')"
        using run Some workItem work by (auto simp: process_def Let_def split: sum.splits)
      then show ?thesis
        using two by (rule drain_distinct_keys)
    next
      case False
      then have "s' = ?s2"
        using run Some workItem work
        by (auto simp: process_def Let_def split: sum.splits option.splits)
      with two show ?thesis by simp
    qed
  qed
qed

lemma serve_at_distinct_keys:
  "serve_at x c calls s0 = Inr s \<Longrightarrow> distinct_keys s0 \<Longrightarrow> distinct_keys s"
proof (induction calls arbitrary: s0)
  case Nil
  then show ?case by simp
next
  case (Cons cll calls)
  obtain cl l where cll: "cll = (cl, l)" by (cases cll)
  obtain it s1 out continue where
    step: "process x c (Some it) l s0 = Inr (s1, out, continue)"
    and rest: "serve_at x c calls s1 = Inr s"
    using Cons.prems(1) cll by (auto split: sum.splits if_splits)
  show ?case
    using Cons.IH [OF rest] process_distinct_keys [OF step Cons.prems(2)] by simp
qed

lemma distinct_keys_empty_router: "distinct_keys empty_router"
  by (simp add: distinct_keys_def empty_router_def)

section \<open>Exact rules and their pool records\<close>

lemma keys_of_delete_eq: "keys_of (AList.delete k al) = keys_of al - {k}"
  by (induction al) (auto simp: keys_of_def)

lemma keys_of_map_of: "(k \<in> keys_of al) = (map_of al k \<noteq> None)"
  by (simp add: keys_of_def map_of_eq_None_iff)

lemma keys_of_update_present: "map_of al k = Some v \<Longrightarrow> keys_of (AList.update k v' al) = keys_of al"
  by (auto simp: keys_of_update keys_of_map_of)

lemma processPoolAdd_pools_for:
  assumes run: "processPoolAdd x c s p = Inr (s', ret)"
    and inv: "pools_for x U s"
    and item: "Wildcard p \<or> (URI p \<in> U \<and> makePoolName x (URI p) = Inr (Name p))"
  shows "pools_for x U s'"
proof -
  have "(r_r s' = r_r s \<and> keys_of (r_m s) \<subseteq> keys_of (r_m s'))
      \<or> (\<not> Wildcard p \<and> (\<exists>rule. r_r s' = AList.update (URI p) rule (r_r s))
          \<and> keys_of (r_m s') = insert (Name p) (keys_of (r_m s)))"
    using run
    by (auto simp: processPoolAdd_def Let_def keys_of_update split: option.splits sum.splits if_splits)
  then consider
      (same) "r_r s' = r_r s" "keys_of (r_m s) \<subseteq> keys_of (r_m s')"
    | (exact) rule where "\<not> Wildcard p" "r_r s' = AList.update (URI p) rule (r_r s)"
        "keys_of (r_m s') = insert (Name p) (keys_of (r_m s))"
    by blast
  then show ?thesis
  proof cases
    case same
    with inv show ?thesis by (simp add: pools_for_def) blast
  next
    case exact
    with inv item show ?thesis
      by (auto simp: pools_for_def keys_of_update)
  qed
qed

lemma processPoolRemove_pools_for:
  assumes run: "processPoolRemove s p = (s', ret)"
    and inv: "pools_for x U s"
    and item: "if Wildcard p then \<forall>u \<in> U. makePoolName x u \<noteq> Inr (Name p)
               else \<forall>u \<in> U. makePoolName x u = Inr (Name p) \<longrightarrow> u = URI p"
  shows "pools_for x U s'"
proof -
  have "(r_r s' = r_r s \<and> keys_of (r_m s') = keys_of (r_m s))
      \<or> (Wildcard p \<and> r_r s' = r_r s \<and> keys_of (r_m s') = keys_of (r_m s) - {Name p})
      \<or> (\<not> Wildcard p \<and> r_r s' = AList.delete (URI p) (r_r s)
          \<and> keys_of (r_m s') = keys_of (r_m s) - {Name p})"
    using run
    by (auto simp: processPoolRemove_def Let_def keys_of_update_present keys_of_delete_eq
        delete_update_same split: option.splits if_splits)
  then consider
      (same) "r_r s' = r_r s" "keys_of (r_m s') = keys_of (r_m s)"
    | (wildcard) "Wildcard p" "r_r s' = r_r s" "keys_of (r_m s') = keys_of (r_m s) - {Name p}"
    | (exact) "\<not> Wildcard p" "r_r s' = AList.delete (URI p) (r_r s)"
        "keys_of (r_m s') = keys_of (r_m s) - {Name p}"
    by blast
  then show ?thesis
  proof cases
    case same
    with inv show ?thesis by (simp add: pools_for_def)
  next
    case wildcard
    with inv item show ?thesis
      by (simp add: pools_for_def) (metis subsetD)
  next
    case exact
    with inv item show ?thesis
      by (simp add: pools_for_def keys_of_delete_eq) blast
  qed
qed

lemma processVirtual_pools_for:
  assumes run: "processVirtual c s op v = Inr (s', ret, err)"
    and inv: "pools_for x U s"
    and item: "\<forall>u \<in> U. makePoolName x u \<noteq> Inr (vs_Name v)"
  shows "pools_for x U s'"
proof -
  have "(r_r s' = r_r s \<and> keys_of (r_m s) \<subseteq> keys_of (r_m s'))
      \<or> (r_r s' = r_r s \<and> keys_of (r_m s') = keys_of (r_m s) - {vs_Name v})"
    using run
    by (auto simp: processVirtual_def processVirtualAdd_def processVirtualRemove_def
        keys_of_update keys_of_delete_eq split: sum.splits if_splits)
  then consider
      (same) "r_r s' = r_r s" "keys_of (r_m s) \<subseteq> keys_of (r_m s')"
    | (removed) "r_r s' = r_r s" "keys_of (r_m s') = keys_of (r_m s) - {vs_Name v}"
    by blast
  then show ?thesis
  proof cases
    case same
    with inv show ?thesis by (simp add: pools_for_def) blast
  next
    case removed
    with inv item show ?thesis
      by (simp add: pools_for_def) (metis subsetD)
  qed
qed

lemma drain_pools_for:
  assumes "drain x c s = Inr (s', out)" and "pools_for x U s"
  shows "pools_for x U s'"
  using assms(2) keys_of_map_fst [OF drain_keys(1) [OF assms(1)]]
    keys_of_map_fst [OF drain_m_keys [OF assms(1)]]
  by (simp add: pools_for_def)


lemma process_pools_for:
  assumes step: "process x c (Some (workItem op work)) l s = Inr (s', out, continue)"
    and inner: "\<And>s1 tryUpdate err.
        (case work of
           pool_work p \<Rightarrow> processPool x c s op p
         | virtual_work v \<Rightarrow> processVirtual c s op v
         | other_work \<Rightarrow> Inr (s, False, None)) = Inr (s1, tryUpdate, err)
        \<Longrightarrow> pools_for x U s1"
  shows "pools_for x U s'"
proof -
  obtain s1 tryUpdate err where
    work: "(case work of
              pool_work p \<Rightarrow> processPool x c s op p
            | virtual_work v \<Rightarrow> processVirtual c s op v
            | other_work \<Rightarrow> Inr (s, False, None)) = Inr (s1, tryUpdate, err)"
    using step by (auto simp: process_def split: sum.splits)
  let ?s2 = "if False = r_drainUpdate s1 then s1\<lparr>r_drainUpdate := tryUpdate\<rparr> else s1"
  have two: "pools_for x U ?s2"
    using inner [OF work] by (simp add: pools_for_def)
  show ?thesis
  proof (cases "err = None \<and> True = r_drainUpdate ?s2 \<and> 0 = l")
    case True
    then obtain out' where "drain x c ?s2 = Inr (s', out')"
      using step work by (auto simp: process_def Let_def split: sum.splits)
    then show ?thesis
      using two by (rule drain_pools_for)
  next
    case False
    then have "s' = ?s2"
      using step work by (auto simp: process_def Let_def split: sum.splits option.splits)
    with two show ?thesis by simp
  qed
qed

lemma pool_call_name_exact:
  "\<not> strings_HasPrefix u ''*.'' \<Longrightarrow> (pool_call_name x u = Some n) = (makePoolName x u = Inr n)"
  by (auto simp: pool_call_name_def split: sum.splits)

lemma call_pools_for:
  assumes it: "intake x cl = Inr it"
    and step: "process x c (Some it) l s = Inr (s', out, continue)"
    and inv: "pools_for x U s"
    and exact: "\<forall>u \<in> U. \<not> strings_HasPrefix u ''*.''"
    and inU: "\<forall>u. exact_uri cl = Some u \<longrightarrow> u \<in> U"
    and noshare: "\<forall>u \<in> U. touched_name x cl = pool_call_name x u \<longrightarrow> exact_uri cl = Some u"
  shows "pools_for x U s'"
proof (cases cl)
  case (UpdatePool uri e)
  show ?thesis
  proof (cases "strings_HasPrefix uri ''*.''")
    case True
    then obtain p where p: "it = workItem add (pool_work p)" "Wildcard p"
      using it UpdatePool by (auto simp: UpdatePoolEndpoints_def)
    show ?thesis
    proof (rule process_pools_for [OF step [unfolded p(1)]])
      fix s1 tryUpdate err
      assume "(case pool_work p of
           pool_work p \<Rightarrow> processPool x c s add p
         | virtual_work v \<Rightarrow> processVirtual c s add v
         | other_work \<Rightarrow> Inr (s, False, None)) = Inr (s1, tryUpdate, err)"
      then have "processPoolAdd x c s p = Inr (s1, tryUpdate)"
        by (auto simp: processPool_def split: sum.splits)
      then show "pools_for x U s1"
        using inv by (rule processPoolAdd_pools_for) (simp add: p(2))
    qed
  next
    case False
    then obtain n where n: "makePoolName x uri = Inr n"
      and p: "it = workItem add (pool_work \<lparr>Name = n, URI = uri, Endpoint = e, Wildcard = False\<rparr>)"
      using it UpdatePool by (auto simp: UpdatePoolEndpoints_def split: sum.splits)
    have u: "uri \<in> U"
      using inU UpdatePool False by simp
    show ?thesis
    proof (rule process_pools_for [OF step [unfolded p]])
      fix s1 tryUpdate err
      assume "(case pool_work \<lparr>Name = n, URI = uri, Endpoint = e, Wildcard = False\<rparr> of
           pool_work p \<Rightarrow> processPool x c s add p
         | virtual_work v \<Rightarrow> processVirtual c s add v
         | other_work \<Rightarrow> Inr (s, False, None)) = Inr (s1, tryUpdate, err)"
      then have "processPoolAdd x c s \<lparr>Name = n, URI = uri, Endpoint = e, Wildcard = False\<rparr>
          = Inr (s1, tryUpdate)"
        by (auto simp: processPool_def split: sum.splits)
      then show "pools_for x U s1"
        using inv by (rule processPoolAdd_pools_for) (simp add: u n)
    qed
  qed
next
  case (RemovePool uri e)
  show ?thesis
  proof (cases "strings_HasPrefix uri ''*.''")
    case True
    let ?p = "\<lparr>Name = strings_TrimPrefix uri ''*.'', URI = uri, Endpoint = e, Wildcard = True\<rparr>"
    have p: "it = workItem remove (pool_work ?p)"
      using it RemovePool True by (auto simp: RemovePoolEndpoints_def Let_def)
    have cond: "\<forall>u \<in> U. makePoolName x u \<noteq> Inr (strings_TrimPrefix uri ''*.'')"
    proof
      fix u assume u: "u \<in> U"
      show "makePoolName x u \<noteq> Inr (strings_TrimPrefix uri ''*.'')"
      proof
        assume "makePoolName x u = Inr (strings_TrimPrefix uri ''*.'')"
        then have "pool_call_name x u = Some (strings_TrimPrefix uri ''*.'')"
          using exact u by (simp add: pool_call_name_exact)
        then have "touched_name x cl = pool_call_name x u"
          using RemovePool True by (simp add: pool_call_name_def)
        with noshare u have "exact_uri cl = Some u" by blast
        then show False using RemovePool True by simp
      qed
    qed
    show ?thesis
    proof (rule process_pools_for [OF step [unfolded p]])
      fix s1 tryUpdate err
      assume "(case pool_work ?p of
           pool_work p \<Rightarrow> processPool x c s remove p
         | virtual_work v \<Rightarrow> processVirtual c s remove v
         | other_work \<Rightarrow> Inr (s, False, None)) = Inr (s1, tryUpdate, err)"
      then have "processPoolRemove s ?p = (s1, tryUpdate)"
        by (auto simp: processPool_def split: prod.splits)
      then show "pools_for x U s1"
        using inv by (rule processPoolRemove_pools_for) (simp add: cond)
    qed
  next
    case False
    then obtain n where n: "makePoolName x uri = Inr n"
      and p: "it = workItem remove (pool_work \<lparr>Name = n, URI = uri, Endpoint = e, Wildcard = False\<rparr>)"
      using it RemovePool by (auto simp: RemovePoolEndpoints_def split: sum.splits)
    have cond: "\<forall>u \<in> U. makePoolName x u = Inr n \<longrightarrow> u = uri"
    proof (intro ballI impI)
      fix u assume u: "u \<in> U" and "makePoolName x u = Inr n"
      then have "pool_call_name x u = Some n"
        using exact by (simp add: pool_call_name_exact)
      moreover have "touched_name x cl = Some n"
        using RemovePool False n by (simp add: pool_call_name_def)
      ultimately have "exact_uri cl = Some u"
        using noshare u by simp
      then show "u = uri" using RemovePool False by simp
    qed
    show ?thesis
    proof (rule process_pools_for [OF step [unfolded p]])
      fix s1 tryUpdate err
      assume "(case pool_work \<lparr>Name = n, URI = uri, Endpoint = e, Wildcard = False\<rparr> of
           pool_work p \<Rightarrow> processPool x c s remove p
         | virtual_work v \<Rightarrow> processVirtual c s remove v
         | other_work \<Rightarrow> Inr (s, False, None)) = Inr (s1, tryUpdate, err)"
      then have "processPoolRemove s \<lparr>Name = n, URI = uri, Endpoint = e, Wildcard = False\<rparr>
          = (s1, tryUpdate)"
        by (auto simp: processPool_def split: prod.splits)
      then show "pools_for x U s1"
        using inv by (rule processPoolRemove_pools_for) (simp add: cond)
    qed
  qed
next
  case (UpdateVirtual name t)
  have cond: "\<forall>u \<in> U. makePoolName x u \<noteq> Inr name"
    using noshare exact UpdateVirtual by (metis exact_uri.simps(3) option.distinct(1) pool_call_name_exact touched_name.simps(3))
  have p: "it = workItem add (virtual_work \<lparr>vs_Name = name, vs_T = t\<rparr>)"
    using it UpdateVirtual by (simp add: UpdateVirtualServer_def)
  show ?thesis
  proof (rule process_pools_for [OF step [unfolded p]])
    fix s1 tryUpdate err
    assume "(case virtual_work \<lparr>vs_Name = name, vs_T = t\<rparr> of
           pool_work p \<Rightarrow> processPool x c s add p
         | virtual_work v \<Rightarrow> processVirtual c s add v
         | other_work \<Rightarrow> Inr (s, False, None)) = Inr (s1, tryUpdate, err)"
    then have "processVirtual c s add \<lparr>vs_Name = name, vs_T = t\<rparr> = Inr (s1, tryUpdate, err)"
      by simp
    then show "pools_for x U s1"
      using inv by (rule processVirtual_pools_for) (simp add: cond)
  qed
next
  case (RemoveVirtual name t)
  have cond: "\<forall>u \<in> U. makePoolName x u \<noteq> Inr name"
    using noshare exact RemoveVirtual by (metis exact_uri.simps(4) option.distinct(1) pool_call_name_exact touched_name.simps(4))
  have p: "it = workItem remove (virtual_work \<lparr>vs_Name = name, vs_T = t\<rparr>)"
    using it RemoveVirtual by (simp add: RemoveVirtualServer_def)
  show ?thesis
  proof (rule process_pools_for [OF step [unfolded p]])
    fix s1 tryUpdate err
    assume "(case virtual_work \<lparr>vs_Name = name, vs_T = t\<rparr> of
           pool_work p \<Rightarrow> processPool x c s remove p
         | virtual_work v \<Rightarrow> processVirtual c s remove v
         | other_work \<Rightarrow> Inr (s, False, None)) = Inr (s1, tryUpdate, err)"
    then have "processVirtual c s remove \<lparr>vs_Name = name, vs_T = t\<rparr> = Inr (s1, tryUpdate, err)"
      by simp
    then show "pools_for x U s1"
      using inv by (rule processVirtual_pools_for) (simp add: cond)
  qed
qed


lemma serve_at_pools_for:
  assumes "serve_at x c calls s0 = Inr s"
    and "pools_for x U s0"
    and "\<forall>u \<in> U. \<not> strings_HasPrefix u ''*.''"
    and "\<forall>cl \<in> fst ` set calls. \<forall>u. exact_uri cl = Some u \<longrightarrow> u \<in> U"
    and "\<forall>cl \<in> fst ` set calls. \<forall>u \<in> U.
           touched_name x cl = pool_call_name x u \<longrightarrow> exact_uri cl = Some u"
  shows "pools_for x U s"
  using assms
proof (induction calls arbitrary: s0)
  case Nil
  then show ?case by simp
next
  case (Cons cll calls)
  obtain cl l where cll: "cll = (cl, l)" by (cases cll)
  obtain it s1 out continue where it: "intake x cl = Inr it"
    and step: "process x c (Some it) l s0 = Inr (s1, out, continue)"
    and rest: "serve_at x c calls s1 = Inr s"
    using Cons.prems(1) cll by (auto split: sum.splits if_splits)
  have here: "cl \<in> fst ` set (cll # calls)"
    using cll by force
  have later: "fst ` set calls \<subseteq> fst ` set (cll # calls)"
    by auto
  have a: "\<forall>u. exact_uri cl = Some u \<longrightarrow> u \<in> U"
    using Cons.prems(4) here by blast
  have b: "\<forall>u \<in> U. touched_name x cl = pool_call_name x u \<longrightarrow> exact_uri cl = Some u"
    using Cons.prems(5) here by blast
  have one: "pools_for x U s1"
    using it step Cons.prems(2) Cons.prems(3) a b by (rule call_pools_for)
  have a': "\<forall>cl \<in> fst ` set calls. \<forall>u. exact_uri cl = Some u \<longrightarrow> u \<in> U"
    using Cons.prems(4) later by blast
  have b': "\<forall>cl \<in> fst ` set calls. \<forall>u \<in> U.
           touched_name x cl = pool_call_name x u \<longrightarrow> exact_uri cl = Some u"
    using Cons.prems(5) later by blast
  show ?case
    using rest one Cons.prems(3) a' b' by (rule Cons.IH)
qed

text \<open>
  In a run from the empty router in which no pool name is shared, every exact rule
  keeps its own pool record, so that \<^verbatim>\<open>r.m\<close> has at least as many entries as \<^verbatim>\<open>r.r\<close>.
\<close>

lemma exact_rules_have_pools:
  assumes run: "serve_at x c calls empty_router = Inr s"
    and ns: "names_not_shared x (map fst calls)"
  shows "length (r_r s) \<le> length (r_m s)"
proof -
  define U where "U = {u. \<exists>cl \<in> fst ` set calls. exact_uri cl = Some u}"
  have exact: "\<forall>u \<in> U. \<not> strings_HasPrefix u ''*.''"
  proof
    fix u assume "u \<in> U"
    then obtain cl where "exact_uri cl = Some u"
      by (auto simp: U_def)
    then show "\<not> strings_HasPrefix u ''*.''"
      by (cases cl) (auto split: if_splits)
  qed
  have inU: "\<forall>cl \<in> fst ` set calls. \<forall>u. exact_uri cl = Some u \<longrightarrow> u \<in> U"
    by (auto simp: U_def)
  have noshare: "\<forall>cl \<in> fst ` set calls. \<forall>u \<in> U.
           touched_name x cl = pool_call_name x u \<longrightarrow> exact_uri cl = Some u"
  proof (intro ballI impI)
    fix cl u assume cl: "cl \<in> fst ` set calls" and "u \<in> U"
      and t: "touched_name x cl = pool_call_name x u"
    then obtain cl0 where cl0: "cl0 \<in> fst ` set calls" "exact_uri cl0 = Some u"
      by (auto simp: U_def)
    have "case exact_uri cl0 of None \<Rightarrow> True
          | Some u \<Rightarrow> touched_name x cl = pool_call_name x u \<longrightarrow> exact_uri cl = Some u"
      using ns cl cl0(1) unfolding names_not_shared_def by fastforce
    with cl0(2) t show "exact_uri cl = Some u" by simp
  qed
  have "pools_for x U empty_router"
    by (simp add: pools_for_def empty_router_def keys_of_def)
  with run have inv: "pools_for x U s"
    using exact inU noshare by (rule serve_at_pools_for)
  have wf: "distinct_keys s"
    using run distinct_keys_empty_router by (rule serve_at_distinct_keys)
  let ?name = "\<lambda>u. projr (makePoolName x u)"
  have into: "?name ` keys_of (r_r s) \<subseteq> keys_of (r_m s)"
    using inv by (auto simp: pools_for_def)
  have inj: "inj_on ?name (keys_of (r_r s))"
  proof (rule inj_onI)
    fix u u' assume u: "u \<in> keys_of (r_r s)" and u': "u' \<in> keys_of (r_r s)"
      and same: "?name u = ?name u'"
    have U: "u \<in> U" "u' \<in> U"
      using inv u u' by (auto simp: pools_for_def)
    obtain n where n: "makePoolName x u = Inr n"
      using inv u unfolding pools_for_def by blast
    obtain n' where n': "makePoolName x u' = Inr n'"
      using inv u' unfolding pools_for_def by blast
    have "n = projr (makePoolName x u)"
      by (simp add: n)
    also have "\<dots> = projr (makePoolName x u')"
      by (rule same)
    also have "\<dots> = n'"
      by (simp add: n')
    finally have "n = n'" .
    from U(2) obtain cl' where cl': "cl' \<in> fst ` set calls" "exact_uri cl' = Some u'"
      by (auto simp: U_def)
    have "touched_name x cl' = pool_call_name x u'"
      using cl'(2) by (cases cl') (auto split: if_splits)
    also have "\<dots> = pool_call_name x u"
      using n n' \<open>n = n'\<close> exact U by (simp add: pool_call_name_def)
    finally have "exact_uri cl' = Some u"
      using noshare cl'(1) U(1) by blast
    with cl'(2) show "u = u'" by simp
  qed
  have "length (r_r s) = card (keys_of (r_r s))"
    using wf by (metis distinct_keys_def distinct_card keys_of_def length_map list.set_map)
  also have "\<dots> = card (?name ` keys_of (r_r s))"
    using inj by (simp add: card_image)
  also have "\<dots> \<le> card (keys_of (r_m s))"
    using into by (simp add: card_mono keys_of_def)
  also have "\<dots> = length (r_m s)"
    using wf by (metis distinct_keys_def distinct_card keys_of_def length_map list.set_map)
  finally show ?thesis .
qed

lemma scenario5_names_not_shared:
  "names_not_shared test_extern
     [UpdatePool ''b.x'' ''10.0.0.1:80'', UpdatePool ''*.x'' ''10.0.0.1:80'',
      UpdatePool ''a.x'' ''10.0.0.1:80'']"
  by code_simp


text \<open>Both runs that break the ordering share a pool name.\<close>

lemma shared_names_in_counterexample:
  "\<not> names_not_shared test_extern
       [UpdatePool ''a.b'' ''10.0.0.1:80'', UpdatePool ''c.d'' ''10.0.0.1:80'',
        RemoveVirtual ''a-2e7336dc8eba87ef'' HTTP, RemoveVirtual ''c-713ff6c49e25f240'' HTTP,
        UpdatePool ''*.z.w'' ''10.0.0.1:80'']
   \<and> \<not> names_not_shared test_extern
       [UpdatePool ''a.b'' ''10.0.0.1:80'', UpdatePool ''c.d'' ''10.0.0.1:80'',
        RemovePool ''*.a-2e7336dc8eba87ef'' ''10.0.0.1:80'',
        RemovePool ''*.c-713ff6c49e25f240'' ''10.0.0.1:80'',
        UpdatePool ''*.z.w'' ''10.0.0.1:80'']"
  by code_simp

text \<open>
  Claim C5, amended. Let the worker run from the empty router along any sequence of
  calls of the four intake functions, with any queue lengths, in which no pool name
  is shared: no call touches the pool name of an exact URI of the run but a pool call
  for this URI itself. Then in the state reached \<^verbatim>\<open>r.m\<close> has at least as many records
  as \<^verbatim>\<open>r.r\<close> has rules, and in the policy that the assembler makes of this state every
  rule of the exact map has an ordinal strictly less than that of every rule of the
  wildcard map. (The state in which \<^verbatim>\<open>process\<close> assembles the policy of a drain is
  such a state but for the flag \<^verbatim>\<open>drainUpdate\<close>, which the assembler does not read:
  it is reached by the same run with a queue that is not empty at the last item.)
\<close>

theorem exact_ordinals_below_wildcard_ordinals:
  assumes run: "serve_at x c calls empty_router = Inr s"
    and ns: "names_not_shared x (map fst calls)"
    and part: "Partitions (BigIP c) \<noteq> []"
  shows "length (r_r s) \<le> length (r_m s)
    \<and> (\<exists>plcy s'. makeRoutePolicy c s name = Inr (plcy, s')
        \<and> (\<forall>i<length (r_r s). \<forall>j<length (r_wildcards s).
              Ordinal (Rules plcy ! i) < Ordinal (Rules plcy ! (length (r_r s) + j))))"
proof -
  have le: "length (r_r s) \<le> length (r_m s)"
    using run ns by (rule exact_rules_have_pools)
  obtain plcy s' where p: "makeRoutePolicy c s name = Inr (plcy, s')"
    and iff: "(\<forall>i<length (r_r s). \<forall>j<length (r_wildcards s).
           Ordinal (Rules plcy ! i) < Ordinal (Rules plcy ! (length (r_r s) + j)))
        = (r_r s = [] \<or> r_wildcards s = [] \<or> length (r_r s) \<le> length (r_m s))"
    using makeRoutePolicy_ordinals_iff [OF part, of s name] by blast
  from iff le have "\<forall>i<length (r_r s). \<forall>j<length (r_wildcards s).
           Ordinal (Rules plcy ! i) < Ordinal (Rules plcy ! (length (r_r s) + j))"
    by blast
  with le p show ?thesis by blast
qed

theorem exact_ordinals_below_wildcard_ordinals_witness:
  "serve_at test_extern test_Config
      [(UpdatePool ''b.x'' ''10.0.0.1:80'', 0), (UpdatePool ''*.x'' ''10.0.0.1:80'', 0),
       (UpdatePool ''a.x'' ''10.0.0.1:80'', 0)] empty_router = Inr scenario5_router
   \<and> length (r_r scenario5_router) = 2 \<and> length (r_wildcards scenario5_router) = 1
   \<and> length (r_m scenario5_router) = 3
   \<and> (\<exists>plcy s'. makeRoutePolicy test_Config scenario5_router CFRoutingPolicyName = Inr (plcy, s')
        \<and> Ordinal (Rules plcy ! 0) < Ordinal (Rules plcy ! 2)
        \<and> Ordinal (Rules plcy ! 1) < Ordinal (Rules plcy ! 2))"
proof -
  let ?calls = "[(UpdatePool ''b.x'' ''10.0.0.1:80'', 0::nat), (UpdatePool ''*.x'' ''10.0.0.1:80'', 0),
       (UpdatePool ''a.x'' ''10.0.0.1:80'', 0)]"
  have run: "serve_at test_extern test_Config ?calls empty_router = Inr scenario5_router"
    by code_simp
  have ns: "names_not_shared test_extern (map fst ?calls)"
    by code_simp
  have part: "Partitions (BigIP test_Config) \<noteq> []"
    by (simp add: test_Config_def)
  have r: "length (r_r scenario5_router) = 2"
    and w: "length (r_wildcards scenario5_router) = 1"
    and m: "length (r_m scenario5_router) = 3"
    by code_simp+
  obtain plcy s' where
    p: "makeRoutePolicy test_Config scenario5_router CFRoutingPolicyName = Inr (plcy, s')"
    and lt: "\<forall>i<length (r_r scenario5_router). \<forall>j<length (r_wildcards scenario5_router).
           Ordinal (Rules plcy ! i) < Ordinal (Rules plcy ! (length (r_r scenario5_router) + j))"
    using exact_ordinals_below_wildcard_ordinals [OF run ns part, of CFRoutingPolicyName]
    by blast
  have "\<forall>i<2. \<forall>j<1. Ordinal (Rules plcy ! i) < Ordinal (Rules plcy ! (2 + j))"
    using lt r w by simp
  then have "Ordinal (Rules plcy ! 0) < Ordinal (Rules plcy ! 2)"
    and "Ordinal (Rules plcy ! 1) < Ordinal (Rules plcy ! 2)"
    by (auto simp: numeral_2_eq_2)
  with run p r w m show ?thesis by blast
qed

end
